theory Spec2Isabelle
  imports Main "HOL-Library.Sublist"
begin

section \<open>The port conflict resolver (src/resolver.js)\<close>

text \<open>
  The class \<open>PortResolver\<close> talks to the operating system through four primitives of
  the Node.js runtime: a listening socket (\<open>net.createServer\<close>, \<open>server.listen\<close>,
  \<open>server.close\<close>), a shell command (\<open>child_process.exec\<close>, promisified), a question
  on the terminal (\<open>readline\<close>) and a timer (\<open>setTimeout\<close>). None of them is code of
  the repository, so the operating system is a parameter of the model: a record of
  functions over an arbitrary world \<open>'w\<close>. Every call of a primitive is appended, with
  its answer, to a trace, so that theorems can speak about which effects a method had
  and in which order. The methods are \<open>async\<close> and \<open>await\<close> every call, so they run
  as sequential code.

  What the model takes for granted: every primitive answers (a server emits
  \<open>'listening'\<close> or \<open>'error'\<close>, a question gets a line); ports, attempt counts and
  process ids are integers (JavaScript numbers are exact below \<open>2^53\<close>, and the model
  is exact there); the text of commands and of their output is ASCII.
\<close>

subsection \<open>Errors, events and the operating system\<close>

text \<open>
  A rejected promise (a \<open>throw\<close> inside an \<open>async\<close> method) is an \<open>Inl\<close> value.
  \<open>RangeError\<close> is Node's \<open>ERR_SOCKET_BAD_PORT\<close>, \<open>TypeError\<close> is "not iterable",
  \<open>Error msg\<close> is \<open>new Error(msg)\<close>.
\<close>

datatype error = RangeError | TypeError | Error string

text \<open>
  \<open>Listen p None\<close>: the server on port \<open>p\<close> emitted \<open>'listening'\<close>;
  \<open>Listen p (Some c)\<close>: it emitted \<open>'error'\<close> with \<open>err.code = c\<close>.
  \<open>Exec cmd (Inr out)\<close>: the command ran and printed \<open>out\<close>;
  \<open>Exec cmd (Inl msg)\<close>: \<open>exec\<close> rejected with \<open>error.message = msg\<close>.
\<close>

datatype event =
    Listen int "string option"
  | Close int
  | Exec string "string + string"
  | Ask string string
  | Delay nat

record 'w env =
  platform :: string
  os_listen :: "int \<Rightarrow> 'w \<Rightarrow> string option \<times> 'w"
  os_close :: "int \<Rightarrow> 'w \<Rightarrow> 'w"
  os_exec :: "string \<Rightarrow> 'w \<Rightarrow> (string + string) \<times> 'w"
  os_question :: "string \<Rightarrow> 'w \<Rightarrow> string \<times> 'w"
  os_timeout :: "nat \<Rightarrow> 'w \<Rightarrow> 'w"

record 'w state =
  trace :: "event list"
  world :: "'w"

text \<open>
  \<open>server.listen(port, '127.0.0.1')\<close>: Node validates the port first and throws
  \<open>ERR_SOCKET_BAD_PORT\<close> outside \<open>0..65535\<close>, before it touches the socket.
\<close>

definition server_listen :: "'w env \<Rightarrow> int \<Rightarrow> 'w state \<Rightarrow> (error + string option) \<times> 'w state" where
  "server_listen env port s =
     (if port < 0 \<or> 65535 < port then (Inl RangeError, s)
      else (case os_listen env port (world s) of
              (ev, w) \<Rightarrow> (Inr ev, \<lparr>trace = trace s @ [Listen port ev], world = w\<rparr>)))"

definition server_close :: "'w env \<Rightarrow> int \<Rightarrow> 'w state \<Rightarrow> 'w state" where
  "server_close env port s =
     \<lparr>trace = trace s @ [Close port], world = os_close env port (world s)\<rparr>"

definition execPromise :: "'w env \<Rightarrow> string \<Rightarrow> 'w state \<Rightarrow> (string + string) \<times> 'w state" where
  "execPromise env command s =
     (case os_exec env command (world s) of
        (r, w) \<Rightarrow> (r, \<lparr>trace = trace s @ [Exec command r], world = w\<rparr>))"

definition delay :: "'w env \<Rightarrow> nat \<Rightarrow> 'w state \<Rightarrow> 'w state" where
  "delay env ms s = \<lparr>trace = trace s @ [Delay ms], world = os_timeout env ms (world s)\<rparr>"

subsection \<open>Numbers as text\<close>

text \<open>The decimal digit \<open>d\<close>, for \<open>d < 10\<close>.\<close>

definition digit_char :: "nat \<Rightarrow> char" where
  "digit_char d = ''0123456789'' ! d"

fun string_of_nat :: "nat \<Rightarrow> string" where
  "string_of_nat n =
     (if n < 10 then [digit_char n] else string_of_nat (n div 10) @ [digit_char (n mod 10)])"

declare string_of_nat.simps [simp del]

text \<open>The template literal \<open>`${n}`\<close> of an integer.\<close>

definition string_of_int :: "int \<Rightarrow> string" where
  "string_of_int i = (if i < 0 then CHR ''-'' # string_of_nat (nat (- i)) else string_of_nat (nat i))"

subsection \<open>isPortAvailable\<close>

text \<open>
  The promise resolves \<open>false\<close> on an \<open>'error'\<close> event, whatever its code, and \<open>true\<close> in
  the callback of \<open>server.close\<close> after \<open>'listening'\<close>. A synchronous throw of
  \<open>server.listen\<close> inside the executor rejects the promise.
\<close>

definition isPortAvailable :: "'w env \<Rightarrow> int \<Rightarrow> 'w state \<Rightarrow> (error + bool) \<times> 'w state" where
  "isPortAvailable env port s =
     (case server_listen env port s of
        (Inl e, s1) \<Rightarrow> (Inl e, s1)
      | (Inr (Some code), s1) \<Rightarrow>
          (if code = ''EADDRINUSE'' then (Inr False, s1) else (Inr False, s1))
      | (Inr None, s1) \<Rightarrow> (Inr True, server_close env port s1))"

subsection \<open>findAvailablePort\<close>

definition exhausted :: "int \<Rightarrow> error" where
  "exhausted maxAttempts =
     Error (''Could not find available port within '' @ string_of_int maxAttempts @ '' attempts'')"

text \<open>
  The \<open>for\<close> loop, from the counter \<open>i\<close>: leaving the loop (by the bound or by
  \<open>break\<close>) reaches the \<open>throw\<close>.
\<close>

function search :: "'w env \<Rightarrow> int \<Rightarrow> int \<Rightarrow> int \<Rightarrow> 'w state \<Rightarrow> (error + int) \<times> 'w state" where
  "search env startPort maxAttempts i s =
     (if i < maxAttempts then
        (let port = startPort + i in
         if port > 65535 then (Inl (exhausted maxAttempts), s)
         else (case isPortAvailable env port s of
                 (Inl e, s1) \<Rightarrow> (Inl e, s1)
               | (Inr True, s1) \<Rightarrow> (Inr port, s1)
               | (Inr False, s1) \<Rightarrow> search env startPort maxAttempts (i + 1) s1))
      else (Inl (exhausted maxAttempts), s))"
  by pat_completeness auto
termination
  by (relation "measure (\<lambda>(env, startPort, maxAttempts, i, s). nat (maxAttempts - i))") auto

text \<open>The defaults of the source are \<open>startPort = 3000\<close> and \<open>maxAttempts = 100\<close>.\<close>

declare search.simps [simp del]

definition findAvailablePort :: "'w env \<Rightarrow> int \<Rightarrow> int \<Rightarrow> 'w state \<Rightarrow> (error + int) \<times> 'w state" where
  "findAvailablePort env startPort maxAttempts s =
     (case isPortAvailable env startPort s of
        (Inl e, s1) \<Rightarrow> (Inl e, s1)
      | (Inr True, s1) \<Rightarrow> (Inr startPort, s1)
      | (Inr False, s1) \<Rightarrow> search env startPort maxAttempts 1 s1)"

subsection \<open>Text: whitespace, digits, parseInt and the two patterns\<close>

definition is_space :: "char \<Rightarrow> bool" where
  "is_space c = (c \<in> set [CHR '' '', CHR 0x09, CHR 0x0A, CHR 0x0B, CHR 0x0C, CHR 0x0D])"

definition is_digit :: "char \<Rightarrow> bool" where
  "is_digit c = (c \<in> set ''0123456789'')"

definition is_hex_digit :: "char \<Rightarrow> bool" where
  "is_hex_digit c = (c \<in> set ''0123456789abcdefABCDEF'')"

definition trim :: "string \<Rightarrow> string" where
  "trim str = rev (dropWhile is_space (rev (dropWhile is_space str)))"

definition starts_with :: "string \<Rightarrow> string \<Rightarrow> bool" where
  "starts_with pre str = (take (length pre) str = pre)"

definition to_lower :: "char \<Rightarrow> char" where
  "to_lower c =
     (case map_of (zip ''ABCDEFGHIJKLMNOPQRSTUVWXYZ'' ''abcdefghijklmnopqrstuvwxyz'') c of
        Some l \<Rightarrow> l
      | None \<Rightarrow> c)"

definition toLowerCase :: "string \<Rightarrow> string" where
  "toLowerCase str = map to_lower str"

definition digit_value :: "char \<Rightarrow> nat" where
  "digit_value c =
     (if is_digit c then of_char c - 48
      else if c \<in> set ''abcdef'' then of_char c - 87
      else of_char c - 55)"

definition number_of_digits :: "nat \<Rightarrow> string \<Rightarrow> nat" where
  "number_of_digits radix ds = foldl (\<lambda>acc c. radix * acc + digit_value c) 0 ds"

text \<open>
  What \<open>getPortPid\<close> can return: \<open>null\<close>, or the number \<open>parseInt\<close> gave, which is
  \<open>NaN\<close> when the text has no leading digits. \<open>null\<close>, \<open>NaN\<close> and \<open>0\<close> are falsy.
\<close>

datatype jsval = Null | NaN | Number int

fun truthy :: "jsval \<Rightarrow> bool" where
  "truthy Null = False"
| "truthy NaN = False"
| "truthy (Number n) = (n \<noteq> 0)"

text \<open>
  \<open>parseInt(str)\<close> without a radix: leading whitespace is skipped, a sign is read, a
  prefix \<open>0x\<close> selects base 16, and the longest run of digits is the value.
\<close>

definition parseInt :: "string \<Rightarrow> jsval" where
  "parseInt str =
     (let s1 = dropWhile is_space str;
          negative = starts_with ''-'' s1;
          s2 = (if starts_with ''-'' s1 \<or> starts_with ''+'' s1 then drop 1 s1 else s1);
          hex = (starts_with ''0x'' s2 \<or> starts_with ''0X'' s2);
          s3 = (if hex then drop 2 s2 else s2);
          ds = takeWhile (if hex then is_hex_digit else is_digit) s3;
          n = int (number_of_digits (if hex then 16 else 10) ds)
      in if ds = [] then NaN else Number (if negative then - n else n))"

text \<open>\<open>str.match(/pid=(\d+)/)\<close>: the digits of the leftmost match, if any.\<close>

fun match_pid :: "string \<Rightarrow> string option" where
  "match_pid [] = None"
| "match_pid (c # cs) =
     (if starts_with ''pid='' (c # cs) \<and> takeWhile is_digit (drop 4 (c # cs)) \<noteq> []
      then Some (takeWhile is_digit (drop 4 (c # cs)))
      else match_pid cs)"

text \<open>\<open>str.match(/LISTENING\s+(\d+)/)\<close>: the digits of the leftmost match, if any.\<close>

fun match_listening :: "string \<Rightarrow> string option" where
  "match_listening [] = None"
| "match_listening (c # cs) =
     (let rest = drop 9 (c # cs) in
      if starts_with ''LISTENING'' (c # cs) \<and> takeWhile is_space rest \<noteq> []
         \<and> takeWhile is_digit (dropWhile is_space rest) \<noteq> []
      then Some (takeWhile is_digit (dropWhile is_space rest))
      else match_listening cs)"

subsection \<open>getPortPid\<close>

definition pid_command :: "string \<Rightarrow> int \<Rightarrow> string" where
  "pid_command pf port =
     (if pf = ''win32'' then ''netstat -ano | findstr :'' @ string_of_int port @ '' | findstr LISTENING''
      else if pf = ''darwin'' then ''lsof -i :'' @ string_of_int port @ '' -t''
      else ''ss -tulpn | grep :'' @ string_of_int port)"

text \<open>The value \<open>getPortPid\<close> computes from the outcome of its command; a rejection is caught.\<close>

definition pid_of_reply :: "string \<Rightarrow> string + string \<Rightarrow> jsval" where
  "pid_of_reply pf reply =
     (case reply of
        Inl msg \<Rightarrow> Null
      | Inr stdout \<Rightarrow>
          (if pf = ''win32'' then
             (case match_listening stdout of Some ds \<Rightarrow> parseInt ds | None \<Rightarrow> Null)
           else if pf = ''darwin'' then
             (if trim stdout \<noteq> [] then parseInt (trim stdout) else Null)
           else
             (case match_pid stdout of Some ds \<Rightarrow> parseInt ds | None \<Rightarrow> Null)))"

definition getPortPid :: "'w env \<Rightarrow> int \<Rightarrow> 'w state \<Rightarrow> jsval \<times> 'w state" where
  "getPortPid env port s =
     (case execPromise env (pid_command (platform env) port) s of
        (reply, s1) \<Rightarrow> (pid_of_reply (platform env) reply, s1))"

subsection \<open>killPort\<close>

text \<open>The object \<open>killPort\<close> returns; \<open>pid\<close> and \<open>name\<close> are absent on two of its paths.\<close>

record result =
  success :: bool
  message :: string
  pid :: "int option"
  name :: "string option"

definition name_command :: "string \<Rightarrow> int \<Rightarrow> string" where
  \<open>name_command pf p =
     (if pf = ''win32'' then ''tasklist /FI "PID eq '' @ string_of_int p @ ''" /FO CSV /NH''
      else ''ps -p '' @ string_of_int p @ '' -o comm='')\<close>

definition or_unknown :: "string \<Rightarrow> string" where
  "or_unknown str = (if str = [] then ''Unknown'' else str)"

text \<open>The process name the first \<open>try\<close> block computes; a rejection leaves \<open>'Unknown'\<close>.\<close>

definition name_of_reply :: "string \<Rightarrow> string + string \<Rightarrow> string" where
  "name_of_reply pf reply =
     (case reply of
        Inl msg \<Rightarrow> ''Unknown''
      | Inr stdout \<Rightarrow>
          (if pf = ''win32'' then or_unknown (takeWhile (\<lambda>c. c \<noteq> CHR '','') (trim stdout))
           else or_unknown (trim stdout)))"

definition question :: "string \<Rightarrow> int \<Rightarrow> int \<Rightarrow> string" where
  "question processName p port =
     ''Are you sure you want to kill process '' @ processName @ '' (PID: '' @ string_of_int p
       @ '') on port '' @ string_of_int port @ ''? (y/N): ''"

definition affirmative :: "string \<Rightarrow> bool" where
  "affirmative answer = (toLowerCase answer = ''y'' \<or> toLowerCase answer = ''yes'')"

definition askConfirmation :: "'w env \<Rightarrow> string \<Rightarrow> 'w state \<Rightarrow> bool \<times> 'w state" where
  "askConfirmation env q s =
     (case os_question env q (world s) of
        (answer, w) \<Rightarrow> (affirmative answer, \<lparr>trace = trace s @ [Ask q answer], world = w\<rparr>))"

definition taskkill_command :: "int \<Rightarrow> string" where
  "taskkill_command p = ''taskkill /PID '' @ string_of_int p @ '' /F''"

definition sigterm_command :: "int \<Rightarrow> string" where
  "sigterm_command p = ''kill -TERM '' @ string_of_int p"

definition sigkill_command :: "int \<Rightarrow> string" where
  "sigkill_command p = ''kill -9 '' @ string_of_int p"

text \<open>
  The signals of the second \<open>try\<close> block. \<open>Inl msg\<close> is the rejection that reaches the
  outer \<open>catch\<close>; the rejection of \<open>kill -TERM\<close> is caught by the inner one.
\<close>

definition send_signals :: "'w env \<Rightarrow> int \<Rightarrow> 'w state \<Rightarrow> (string + string) \<times> 'w state" where
  "send_signals env p s =
     (if platform env = ''win32'' then execPromise env (taskkill_command p) s
      else (case execPromise env (sigterm_command p) s of
              (Inr out, s1) \<Rightarrow> (Inr out, s1)
            | (Inl msg, s1) \<Rightarrow> execPromise env (sigkill_command p) s1))"

definition not_found :: result where
  "not_found = \<lparr>success = False, message = ''No process found on this port'', pid = None, name = None\<rparr>"

definition cancelled :: result where
  "cancelled = \<lparr>success = False, message = ''Cancelled by user'', pid = None, name = None\<rparr>"

definition still_running :: "int \<Rightarrow> string \<Rightarrow> result" where
  "still_running p processName =
     \<lparr>success = False, message = ''Process may still be running'', pid = Some p, name = Some processName\<rparr>"

definition killed :: "int \<Rightarrow> string \<Rightarrow> result" where
  "killed p processName =
     \<lparr>success = True, message = ''Process killed successfully'', pid = Some p, name = Some processName\<rparr>"

definition failed :: "string \<Rightarrow> int \<Rightarrow> string \<Rightarrow> result" where
  "failed msg p processName =
     \<lparr>success = False, message = msg, pid = Some p, name = Some processName\<rparr>"

text \<open>The part of \<open>killPort\<close> after the confirmation: signal, wait, probe again.\<close>

definition kill_and_verify :: "'w env \<Rightarrow> int \<Rightarrow> int \<Rightarrow> string \<Rightarrow> 'w state \<Rightarrow> result \<times> 'w state" where
  "kill_and_verify env port p processName s =
     (case send_signals env p s of
        (Inl msg, s1) \<Rightarrow> (failed msg p processName, s1)
      | (Inr out, s1) \<Rightarrow>
          (case getPortPid env port (delay env 500 s1) of
             (stillInUse, s2) \<Rightarrow>
               (if truthy stillInUse then (still_running p processName, s2)
                else (killed p processName, s2))))"

text \<open>\<open>!pid\<close> holds for \<open>null\<close>, \<open>NaN\<close> and \<open>0\<close>.\<close>

definition killPort :: "'w env \<Rightarrow> int \<Rightarrow> bool \<Rightarrow> 'w state \<Rightarrow> result \<times> 'w state" where
  "killPort env port force s =
     (case getPortPid env port s of
        (found, s1) \<Rightarrow>
          (case found of
             Null \<Rightarrow> (not_found, s1)
           | NaN \<Rightarrow> (not_found, s1)
           | Number p \<Rightarrow>
               (if p = 0 then (not_found, s1)
                else (case execPromise env (name_command (platform env) p) s1 of
                        (reply, s2) \<Rightarrow>
                          (let processName = name_of_reply (platform env) reply in
                           if \<not> force then
                             (case askConfirmation env (question processName p port) s2 of
                                (confirmed, s3) \<Rightarrow>
                                  (if \<not> confirmed then (cancelled, s3)
                                   else kill_and_verify env port p processName s3))
                           else kill_and_verify env port p processName s2)))))"

subsection \<open>A concrete host, for running the model\<close>

text \<open>
  A loopback socket table and a script of what the shell and the terminal answer:
  \<open>bound\<close> are the ports with a listening socket, \<open>refused\<close> the ports whose bind fails
  for another reason, with the error code. A successful \<open>listen\<close> enters the port into
  the table and \<open>close\<close> removes it. Port \<open>0\<close> asks for any free port.
\<close>

record host =
  bound :: "int list"
  refused :: "(int \<times> string) list"
  outputs :: "(string + string) list"
  answers :: "string list"

definition host_listen :: "int \<Rightarrow> host \<Rightarrow> string option \<times> host" where
  "host_listen port h =
     (if port \<noteq> 0 \<and> port \<in> set (bound h) then (Some ''EADDRINUSE'', h)
      else (case map_of (refused h) port of
              Some code \<Rightarrow> (Some code, h)
            | None \<Rightarrow> (None, h\<lparr>bound := port # bound h\<rparr>)))"

definition host_close :: "int \<Rightarrow> host \<Rightarrow> host" where
  "host_close port h = h\<lparr>bound := remove1 port (bound h)\<rparr>"

definition host_exec :: "string \<Rightarrow> host \<Rightarrow> (string + string) \<times> host" where
  "host_exec command h =
     (case outputs h of
        [] \<Rightarrow> (Inl (''Command failed: '' @ command), h)
      | r # rs \<Rightarrow> (r, h\<lparr>outputs := rs\<rparr>))"

definition host_question :: "string \<Rightarrow> host \<Rightarrow> string \<times> host" where
  "host_question q h =
     (case answers h of
        [] \<Rightarrow> ([], h)
      | a # as \<Rightarrow> (a, h\<lparr>answers := as\<rparr>))"

definition host_env :: "string \<Rightarrow> host env" where
  "host_env pf =
     \<lparr>platform = pf, os_listen = host_listen, os_close = host_close, os_exec = host_exec,
      os_question = host_question, os_timeout = (\<lambda>ms h. h)\<rparr>"

definition boot :: "host \<Rightarrow> host state" where
  "boot h = \<lparr>trace = [], world = h\<rparr>"

subsection \<open>getFrameworkSuggestions and findPortForFramework\<close>

definition getFrameworkSuggestions :: "(string \<times> int list) list" where
  "getFrameworkSuggestions =
     [(''React/Vite'', [5173, 5174, 5175, 5180]),
      (''Next.js'', [3000, 3001, 3002, 3003]),
      (''Create React App'', [3000, 3001, 3002]),
      (''Vue CLI/Vite'', [5173, 5174, 5175, 8080]),
      (''Angular'', [4200, 4201]),
      (''Express'', [3000, 4000, 5000, 8080]),
      (''FastAPI'', [8000, 8001, 8080]),
      (''Flask'', [5000, 5001, 8000]),
      (''Django'', [8000, 8001, 8080]),
      (''Ruby on Rails'', [3000, 5000]),
      (''Laravel'', [8000, 8001]),
      (''Node.js'', [3000, 4000, 5000, 8080]),
      (''NestJS'', [3000, 4000, 5000]),
      (''Gatsby'', [8000, 8001]),
      (''Hugo'', [1313, 1314]),
      (''Spring Boot'', [8080, 8081, 8443]),
      (''ASP.NET Core'', [5000, 5001, 8080]),
      (''Docker'', [2375, 2376, 5000, 8080]),
      (''PostgreSQL'', [5432, 5433]),
      (''MySQL'', [3306, 3307]),
      (''MongoDB'', [27017, 27018, 27019]),
      (''Redis'', [6379, 6380]),
      (''Elasticsearch'', [9200, 9300])]"

text \<open>
  The mapping is an object literal, so \<open>suggestions[framework]\<close> also finds what the
  object inherits from \<open>Object.prototype\<close>: functions, and for \<open>__proto__\<close> the
  prototype itself. All of them are truthy and none is iterable.
\<close>

definition object_prototype_members :: "string list" where
  "object_prototype_members =
     [''constructor'', ''__defineGetter__'', ''__defineSetter__'', ''hasOwnProperty'',
      ''__lookupGetter__'', ''__lookupSetter__'', ''isPrototypeOf'', ''propertyIsEnumerable'',
      ''toString'', ''valueOf'', ''__proto__'', ''toLocaleString'']"

datatype property = Ports "int list" | Inherited | Undefined

definition get_property :: "(string \<times> int list) list \<Rightarrow> string \<Rightarrow> property" where
  "get_property obj key =
     (case map_of obj key of
        Some ports \<Rightarrow> Ports ports
      | None \<Rightarrow> if key \<in> set object_prototype_members then Inherited else Undefined)"

text \<open>The \<open>for ... of\<close> loop over the preferred ports; \<open>None\<close> when it runs to its end.\<close>

fun probe_each :: "'w env \<Rightarrow> int list \<Rightarrow> 'w state \<Rightarrow> (error + int option) \<times> 'w state" where
  "probe_each env [] s = (Inr None, s)"
| "probe_each env (port # ports) s =
     (case isPortAvailable env port s of
        (Inl e, s1) \<Rightarrow> (Inl e, s1)
      | (Inr True, s1) \<Rightarrow> (Inr (Some port), s1)
      | (Inr False, s1) \<Rightarrow> probe_each env ports s1)"

definition probe_preferred :: "'w env \<Rightarrow> int list \<Rightarrow> 'w state \<Rightarrow> (error + int) \<times> 'w state" where
  "probe_preferred env preferredPorts s =
     (case probe_each env preferredPorts s of
        (Inl e, s1) \<Rightarrow> (Inl e, s1)
      | (Inr (Some port), s1) \<Rightarrow> (Inr port, s1)
      | (Inr None, s1) \<Rightarrow> findAvailablePort env 3000 100 s1)"

definition findPortForFramework :: "'w env \<Rightarrow> string \<Rightarrow> 'w state \<Rightarrow> (error + int) \<times> 'w state" where
  "findPortForFramework env framework s =
     (case get_property getFrameworkSuggestions framework of
        Ports ports \<Rightarrow> probe_preferred env ports s
      | Inherited \<Rightarrow> (Inl TypeError, s)
      | Undefined \<Rightarrow> probe_preferred env [3000, 4000, 5000, 8000] s)"

subsection \<open>Reading a trace\<close>

text \<open>The probes in a trace: the port of every \<open>listen\<close> and whether it was free.\<close>

fun probe :: "event \<Rightarrow> (int \<times> bool) list" where
  "probe (Listen port ev) = [(port, ev = None)]"
| "probe e = []"

definition probes :: "event list \<Rightarrow> (int \<times> bool) list" where
  "probes evs = concat (map probe evs)"

text \<open>
  A scan of the ports \<open>ps\<close>, in their order, that stops at the first free one:
  with result \<open>Some p\<close>, the ports before \<open>p\<close> were probed and found busy, then \<open>p\<close> was
  probed and found free, and nothing after it was probed; with result \<open>None\<close>, every
  port was probed and found busy.
\<close>

definition scanned :: "int list \<Rightarrow> event list \<Rightarrow> int option \<Rightarrow> bool" where
  "scanned ps evs r =
     (case r of
        Some p \<Rightarrow> (\<exists>k<length ps. ps ! k = p
                     \<and> probes evs = map (\<lambda>q. (q, False)) (take k ps) @ [(p, True)])
      | None \<Rightarrow> probes evs = map (\<lambda>q. (q, False)) ps)"

text \<open>
  The candidates of \<open>findAvailablePort\<close>, in the words of the specification: the start
  port, then \<open>startPort + 1, startPort + 2, ...\<close> in increasing order, up to
  \<open>maxAttempts - 1\<close> further ports and never above 65535.
\<close>

definition candidates :: "int \<Rightarrow> int \<Rightarrow> int list" where
  "candidates startPort maxAttempts =
     startPort # [startPort + 1 .. min (startPort + maxAttempts - 1) 65535]"

text \<open>The terminating commands in a trace.\<close>

fun is_signal :: "event \<Rightarrow> bool" where
  "is_signal (Exec command reply) = (starts_with ''kill '' command \<or> starts_with ''taskkill '' command)"
| "is_signal e = False"

definition signals :: "event list \<Rightarrow> event list" where
  "signals evs = filter is_signal evs"

text \<open>
  The signals one call of \<open>killPort\<close> can send to the process \<open>p\<close>, with the outcome
  \<open>reply\<close> of the last of them: \<open>taskkill /F\<close> alone on Windows; elsewhere
  \<open>kill -TERM\<close> alone when it is delivered, or a failed \<open>kill -TERM\<close> and then \<open>kill -9\<close>.
\<close>

definition signal_run :: "string \<Rightarrow> int \<Rightarrow> event list \<Rightarrow> string + string \<Rightarrow> bool" where
  "signal_run pf p sig reply =
     (if pf = ''win32'' then sig = [Exec (taskkill_command p) reply]
      else (sig = [Exec (sigterm_command p) reply] \<and> (\<exists>out. reply = Inr out))
         \<or> (\<exists>msg. sig = [Exec (sigterm_command p) (Inl msg), Exec (sigkill_command p) reply]))"

text \<open>
  The confirmation before the signals: none is asked under \<open>force\<close>; otherwise the
  question \<open>q\<close> was asked and answered yes.
\<close>

definition consent :: "bool \<Rightarrow> string \<Rightarrow> event list \<Rightarrow> bool" where
  "consent force q asked =
     (if force then asked = [] else (\<exists>answer. affirmative answer \<and> asked = [Ask q answer]))"

text \<open>
  A trace read against the operating system. \<open>step\<close> is the world after the call an
  event records, \<open>answer_ok\<close> says that the answer the event records is the one the
  operating system gives in the world where the call is made. \<open>replay\<close> makes the
  calls of a trace one after the other, \<open>answered\<close> checks every answer on the way.
\<close>

fun step :: "'w env \<Rightarrow> event \<Rightarrow> 'w \<Rightarrow> 'w" where
  "step env (Listen port ev) w = snd (os_listen env port w)"
| "step env (Close port) w = os_close env port w"
| "step env (Exec command reply) w = snd (os_exec env command w)"
| "step env (Ask q answer) w = snd (os_question env q w)"
| "step env (Delay ms) w = os_timeout env ms w"

fun answer_ok :: "'w env \<Rightarrow> event \<Rightarrow> 'w \<Rightarrow> bool" where
  "answer_ok env (Listen port ev) w = (fst (os_listen env port w) = ev)"
| "answer_ok env (Close port) w = True"
| "answer_ok env (Exec command reply) w = (fst (os_exec env command w) = reply)"
| "answer_ok env (Ask q answer) w = (fst (os_question env q w) = answer)"
| "answer_ok env (Delay ms) w = True"

fun replay :: "'w env \<Rightarrow> event list \<Rightarrow> 'w \<Rightarrow> 'w" where
  "replay env [] w = w"
| "replay env (e # es) w = replay env es (step env e w)"

fun answered :: "'w env \<Rightarrow> event list \<Rightarrow> 'w \<Rightarrow> bool" where
  "answered env [] w = True"
| "answered env (e # es) w = (answer_ok env e w \<and> answered env es (step env e w))"

text \<open>
  A run from the state \<open>s\<close> to the state \<open>s'\<close> made exactly the calls \<open>evs\<close>: they are
  what it added to the trace, every one was made in the world its predecessors left
  and answered as the trace says, and \<open>s'\<close> holds the world after the last of them.
\<close>

definition logged :: "'w env \<Rightarrow> 'w state \<Rightarrow> event list \<Rightarrow> 'w state \<Rightarrow> bool" where
  "logged env s evs s' =
     (trace s' = trace s @ evs \<and> answered env evs (world s) \<and> world s' = replay env evs (world s))"

subsection \<open>Hosts used as examples\<close>

text \<open>Ports 3000 to 3004 are taken, everything else is free.\<close>

definition busy_host :: host where
  "busy_host = \<lparr>bound = [3000, 3001, 3002, 3003, 3004], refused = [], outputs = [], answers = []\<rparr>"

text \<open>Nobody listens on port 80, but binding to it is not permitted.\<close>

definition unprivileged_host :: host where
  "unprivileged_host = \<lparr>bound = [], refused = [(80, ''EACCES'')], outputs = [], answers = []\<rparr>"

text \<open>
  A host on which the process 4242, \<open>node\<close>, listens on port 3000. The lists give what
  the shell answers to the successive commands of \<open>killPort\<close> and what the user types.
\<close>

definition ss_line :: string where
  \<open>ss_line = ''tcp LISTEN 0 511 127.0.0.1:3000 0.0.0.0:* users:(("node",pid=4242,fd=18))''\<close>

definition scripted :: "(string + string) list \<Rightarrow> string list \<Rightarrow> host" where
  "scripted outs typed = \<lparr>bound = [3000], refused = [], outputs = outs, answers = typed\<rparr>"

text \<open>The user answers no.\<close>

definition declining_host :: host where
  "declining_host = scripted [Inr ss_line, Inr ''node''] [''n'']"

text \<open>The process ignores \<open>kill -TERM\<close>: the port is still owned after the delay.\<close>

definition stubborn_host :: host where
  "stubborn_host = scripted [Inr ss_line, Inr ''node'', Inr [], Inr ss_line] []"

text \<open>The process exits: \<open>grep\<close> finds nothing after the delay and \<open>exec\<close> rejects.\<close>

definition obedient_host :: host where
  "obedient_host = scripted [Inr ss_line, Inr ''node'', Inr [], Inl ''Command failed: ss -tulpn | grep :3000''] []"

text \<open>Neither signal can be delivered.\<close>

definition protected_host :: host where
  "protected_host =
     scripted [Inr ss_line, Inr ''node'', Inl ''Command failed: kill -TERM 4242'',
               Inl ''Command failed: kill -9 4242''] [''yes'']"

text \<open>Windows: the same process, found by \<open>netstat\<close>; \<open>taskkill\<close> is refused.\<close>

definition netstat_line :: string where
  "netstat_line = ''  TCP    0.0.0.0:3000    0.0.0.0:0    LISTENING    4242''"

definition windows_host :: host where
  "windows_host =
     scripted [Inr netstat_line, Inr ''node.exe,4242,Console,1,50000 K'',
               Inl ''Command failed: taskkill /PID 4242 /F''] []"

text \<open>
  A Linux on which time matters. The process 4242 owns port 3000 while it is alive.
  \<open>kill -TERM\<close> is delivered and only asks the process to exit; the process is gone
  once 500 ms have passed after that. Whoever looks the port up without waiting still
  finds the owner.
\<close>

record process =
  alive :: bool
  asked_to_exit :: bool

definition lingering_exec :: "string \<Rightarrow> process \<Rightarrow> (string + string) \<times> process" where
  "lingering_exec command w =
     (if starts_with ''kill '' command then (Inr [], w\<lparr>asked_to_exit := True\<rparr>)
      else if starts_with ''ps '' command then (Inr ''node'', w)
      else if alive w then (Inr ss_line, w)
      else (Inl (''Command failed: '' @ command), w))"

definition lingering_timeout :: "nat \<Rightarrow> process \<Rightarrow> process" where
  "lingering_timeout ms w = (if asked_to_exit w \<and> 500 \<le> ms then w\<lparr>alive := False\<rparr> else w)"

definition lingering_env :: "process env" where
  "lingering_env =
     \<lparr>platform = ''linux'',
      os_listen = (\<lambda>port w. (if port = 3000 \<and> alive w then Some ''EADDRINUSE'' else None, w)),
      os_close = (\<lambda>port w. w),
      os_exec = lingering_exec,
      os_question = (\<lambda>q w. ([], w)),
      os_timeout = lingering_timeout\<rparr>"

definition running :: "process state" where
  "running = \<lparr>trace = [], world = \<lparr>alive = True, asked_to_exit = False\<rparr>\<rparr>"

text \<open>An operating system whose taken ports never change, and whose shell always fails.\<close>

definition fixed_env :: "string \<Rightarrow> (int \<Rightarrow> bool) \<Rightarrow> unit env" where
  "fixed_env pf taken =
     \<lparr>platform = pf,
      os_listen = (\<lambda>port w. (if taken port then Some ''EADDRINUSE'' else None, w)),
      os_close = (\<lambda>port w. w),
      os_exec = (\<lambda>command w. (Inl (''Command failed: '' @ command), w)),
      os_question = (\<lambda>q w. ([], w)),
      os_timeout = (\<lambda>ms w. w)\<rparr>"

section \<open>The availability probe and the search for a free port\<close>

lemma probes_append: "probes (xs @ ys) = probes xs @ probes ys"
  by (simp add: probes_def)

lemma isPortAvailable_valid_eq:
  "0 \<le> p \<Longrightarrow> p \<le> 65535 \<Longrightarrow>
   isPortAvailable env p s =
     (case os_listen env p (world s) of
        (None, w) \<Rightarrow> (Inr True, \<lparr>trace = trace s @ [Listen p None, Close p], world = os_close env p w\<rparr>)
      | (Some code, w) \<Rightarrow> (Inr False, \<lparr>trace = trace s @ [Listen p (Some code)], world = w\<rparr>))"
  by (simp add: isPortAvailable_def server_listen_def server_close_def split: prod.split option.split)

lemma isPortAvailable_valid:
  assumes "0 \<le> p" "p \<le> 65535" "isPortAvailable env p s = (r, s')"
  shows "\<exists>b evs. r = Inr b \<and> trace s' = trace s @ evs \<and> probes evs = [(p, b)]"
proof -
  obtain ev w where o: "os_listen env p (world s) = (ev, w)" by (cases "os_listen env p (world s)")
  show ?thesis
  proof (cases ev)
    case None
    with assms(3) o have "r = Inr True" "s' = \<lparr>trace = trace s @ [Listen p None, Close p], world = os_close env p w\<rparr>"
      unfolding isPortAvailable_valid_eq[OF assms(1,2)] by simp_all
    then show ?thesis by (auto simp: probes_def)
  next
    case (Some code)
    with assms(3) o have "r = Inr False" "s' = \<lparr>trace = trace s @ [Listen p (Some code)], world = w\<rparr>"
      unfolding isPortAvailable_valid_eq[OF assms(1,2)] by simp_all
    then show ?thesis by (auto simp: probes_def)
  qed
qed

lemma isPortAvailable_invalid:
  "p < 0 \<or> 65535 < p \<Longrightarrow> isPortAvailable env p s = (Inl RangeError, s)"
  by (auto simp: isPortAvailable_def server_listen_def)

lemma scanned_hit: "probes evs = [(p, True)] \<Longrightarrow> scanned (p # ps) evs (Some p)"
  unfolding scanned_def by (simp only: option.case) (rule exI[of _ 0], simp)

lemma scanned_miss:
  assumes "probes e1 = [(p, False)]" "scanned ps e2 r"
  shows "scanned (p # ps) (e1 @ e2) r"
proof (cases r)
  case None
  with assms show ?thesis by (simp add: scanned_def probes_append)
next
  case (Some q)
  with assms(2) obtain k where k: "k < length ps" "ps ! k = q"
    "probes e2 = map (\<lambda>q. (q, False)) (take k ps) @ [(q, True)]"
    unfolding scanned_def by auto
  have "Suc k < length (p # ps)" using k(1) by simp
  moreover have "(p # ps) ! Suc k = q" using k(2) by simp
  moreover have "probes (e1 @ e2) = map (\<lambda>q. (q, False)) (take (Suc k) (p # ps)) @ [(q, True)]"
    using assms(1) k(3) by (simp add: probes_append)
  ultimately show ?thesis unfolding scanned_def Some by (simp only: option.case) blast
qed

lemma scanned_member: "scanned ps evs (Some p) \<Longrightarrow> p \<in> set ps"
  by (auto simp: scanned_def)

lemma probe_each_scanned:
  assumes "probe_each env ps s = (r, s')" "\<forall>p\<in>set ps. 0 \<le> p \<and> p \<le> 65535"
  shows "\<exists>x evs. r = Inr x \<and> trace s' = trace s @ evs \<and> scanned ps evs x"
  using assms
proof (induction ps arbitrary: s)
  case Nil
  then show ?case by (auto simp: scanned_def probes_def)
next
  case (Cons p ps)
  obtain r1 s1 where p1: "isPortAvailable env p s = (r1, s1)" by (cases "isPortAvailable env p s")
  from Cons.prems(2) have "0 \<le> p" "p \<le> 65535" by simp_all
  from isPortAvailable_valid[OF this p1]
  obtain b e1 where b: "r1 = Inr b" "trace s1 = trace s @ e1" "probes e1 = [(p, b)]"
    by blast
  show ?case
  proof (cases b)
    case True
    with p1 b Cons.prems(1) have "r = Inr (Some p)" "s' = s1" by simp_all
    with b True scanned_hit[of e1 p ps] show ?thesis by simp
  next
    case False
    with p1 b Cons.prems(1) have "probe_each env ps s1 = (r, s')" by simp
    moreover from Cons.prems(2) have "\<forall>p\<in>set ps. 0 \<le> p \<and> p \<le> 65535" by simp
    ultimately obtain x e2 where
      x: "r = Inr x" "trace s' = trace s1 @ e2" "scanned ps e2 x"
      using Cons.IH[of s1] by blast
    from b(3) False x(3) have "scanned (p # ps) (e1 @ e2) x"
      using scanned_miss[of e1 p ps e2 x] by simp
    with x b show ?thesis by simp
  qed
qed

text \<open>The loop of findAvailablePort is the scan of its remaining candidates.\<close>

lemma search_eq_probe_each:
  "search env startPort maxAttempts i s =
     (case probe_each env [startPort + i .. min (startPort + maxAttempts - 1) 65535] s of
        (Inl e, s1) \<Rightarrow> (Inl e, s1)
      | (Inr (Some port), s1) \<Rightarrow> (Inr port, s1)
      | (Inr None, s1) \<Rightarrow> (Inl (exhausted maxAttempts), s1))"
proof (induction env startPort maxAttempts i s rule: search.induct)
  case (1 env startPort maxAttempts i s)
  let ?hi = "min (startPort + maxAttempts - 1) 65535"
  show ?case
  proof (cases "i < maxAttempts \<and> startPort + i \<le> 65535")
    case False
    then have "[startPort + i .. ?hi] = []" by auto
    with False show ?thesis by (subst search.simps) (auto simp: Let_def)
  next
    case True
    then have rc: "[startPort + i .. ?hi] = (startPort + i) # [startPort + (i + 1) .. ?hi]"
      by (subst upto.simps) (simp add: add.assoc)
    obtain r1 s1 where p1: "isPortAvailable env (startPort + i) s = (r1, s1)"
      by (cases "isPortAvailable env (startPort + i) s")
    show ?thesis
    proof (cases r1)
      case (Inl e)
      with True p1 show ?thesis unfolding rc by (subst search.simps) (simp add: Let_def)
    next
      case (Inr b)
      show ?thesis
      proof (cases b)
        case True
        with \<open>i < maxAttempts \<and> startPort + i \<le> 65535\<close> p1 Inr show ?thesis
          unfolding rc by (subst search.simps) (simp add: Let_def)
      next
        case False
        with \<open>i < maxAttempts \<and> startPort + i \<le> 65535\<close> p1 Inr
          "1.IH"[of "startPort + i" "Inr False" s1 False]
        show ?thesis
          unfolding rc by (subst search.simps) (simp add: Let_def)
      qed
    qed
  qed
qed

lemma findAvailablePort_eq_probe_each:
  "findAvailablePort env startPort maxAttempts s =
     (case probe_each env (candidates startPort maxAttempts) s of
        (Inl e, s1) \<Rightarrow> (Inl e, s1)
      | (Inr (Some port), s1) \<Rightarrow> (Inr port, s1)
      | (Inr None, s1) \<Rightarrow> (Inl (exhausted maxAttempts), s1))"
proof -
  obtain r1 s1 where p1: "isPortAvailable env startPort s = (r1, s1)"
    by (cases "isPortAvailable env startPort s")
  show ?thesis
  proof (cases r1)
    case (Inl e)
    with p1 show ?thesis by (simp add: findAvailablePort_def candidates_def)
  next
    case (Inr b)
    with p1 show ?thesis
      by (cases b) (simp_all add: findAvailablePort_def candidates_def search_eq_probe_each)
  qed
qed

lemma candidates_valid:
  "0 \<le> startPort \<Longrightarrow> startPort \<le> 65535 \<Longrightarrow>
   \<forall>p\<in>set (candidates startPort maxAttempts). 0 \<le> p \<and> p \<le> 65535"
  by (auto simp: candidates_def)

lemma findAvailablePort_scanned:
  assumes "findAvailablePort env startPort maxAttempts s = (r, s')"
    and "0 \<le> startPort" "startPort \<le> 65535"
  shows "\<exists>evs. trace s' = trace s @ evs \<and>
           (case r of
              Inr port \<Rightarrow> scanned (candidates startPort maxAttempts) evs (Some port)
            | Inl e \<Rightarrow> e = exhausted maxAttempts \<and> scanned (candidates startPort maxAttempts) evs None)"
proof -
  obtain r1 s1 where p1: "probe_each env (candidates startPort maxAttempts) s = (r1, s1)"
    by (cases "probe_each env (candidates startPort maxAttempts) s")
  from probe_each_scanned[OF p1 candidates_valid[OF assms(2,3)]]
  obtain x evs where x: "r1 = Inr x" "trace s1 = trace s @ evs"
    "scanned (candidates startPort maxAttempts) evs x" by blast
  from assms(1) p1 x show ?thesis
    unfolding findAvailablePort_eq_probe_each by (cases x) auto
qed


lemma isPortAvailable_occupied:
  assumes "0 \<le> p" "p \<le> 65535" "fst (os_listen env p (world s)) \<noteq> None"
  shows "\<exists>evs s'. isPortAvailable env p s = (Inr False, s') \<and> trace s' = trace s @ evs
           \<and> probes evs = [(p, False)]"
proof -
  obtain code w where "os_listen env p (world s) = (Some code, w)"
    using assms(3) by (cases "os_listen env p (world s)") auto
  then show ?thesis
    unfolding isPortAvailable_valid_eq[OF assms(1,2)] by (simp add: probes_def)
qed


lemma probe_each_occupied:
  assumes "\<forall>q\<in>set ps. 0 \<le> q \<and> q \<le> 65535 \<and> (\<forall>w. fst (os_listen env q w) \<noteq> None)"
  shows "\<exists>evs s'. probe_each env ps s = (Inr None, s') \<and> trace s' = trace s @ evs
           \<and> probes evs = map (\<lambda>q. (q, False)) ps"
  using assms
proof (induction ps arbitrary: s)
  case Nil
  show ?case by (simp add: probes_def)
next
  case (Cons p ps)
  then have "0 \<le> p" "p \<le> 65535" "fst (os_listen env p (world s)) \<noteq> None" by simp_all
  from isPortAvailable_occupied[OF this]
  obtain e1 s1 where 1: "isPortAvailable env p s = (Inr False, s1)" "trace s1 = trace s @ e1"
    "probes e1 = [(p, False)]" by blast
  from Cons obtain e2 s2 where 2: "probe_each env ps s1 = (Inr None, s2)" "trace s2 = trace s1 @ e2"
    "probes e2 = map (\<lambda>q. (q, False)) ps" by fastforce
  have "probe_each env (p # ps) s = (Inr None, s2)" using 1(1) 2(1) by simp
  moreover have "trace s2 = trace s @ (e1 @ e2)" using 1(2) 2(2) by simp
  moreover have "probes (e1 @ e2) = map (\<lambda>q. (q, False)) (p # ps)"
    using 1(3) 2(3) by (simp add: probes_append)
  ultimately show ?case by blast
qed




lemma suggestions_valid:
  "map_of getFrameworkSuggestions framework = Some ports \<Longrightarrow> \<forall>p\<in>set ports. 0 \<le> p \<and> p \<le> 65535"
  by (auto simp: getFrameworkSuggestions_def split: if_splits)

lemma findPortForFramework_unknown:
  assumes "map_of getFrameworkSuggestions framework = None"
    and "framework \<notin> set object_prototype_members"
  shows "findPortForFramework env framework s = probe_preferred env [3000, 4000, 5000, 8000] s"
  using assms by (simp add: findPortForFramework_def get_property_def)

section \<open>Killing the owner of a port\<close>

lemma execPromise_run:
  obtains reply s1 where "execPromise env command s = (reply, s1)"
    and "trace s1 = trace s @ [Exec command reply]"
  by (cases "os_exec env command (world s)") (simp add: execPromise_def)

lemma getPortPid_run:
  obtains reply s1 where "getPortPid env port s = (pid_of_reply (platform env) reply, s1)"
    and "trace s1 = trace s @ [Exec (pid_command (platform env) port) reply]"
proof -
  obtain reply s1 where "execPromise env (pid_command (platform env) port) s = (reply, s1)"
    "trace s1 = trace s @ [Exec (pid_command (platform env) port) reply]"
    by (rule execPromise_run)
  then show thesis using that by (simp add: getPortPid_def)
qed

lemma askConfirmation_run:
  obtains answer s1 where "askConfirmation env q s = (affirmative answer, s1)"
    and "trace s1 = trace s @ [Ask q answer]"
  by (cases "os_question env q (world s)") (simp add: askConfirmation_def)

lemma send_signals_run:
  obtains (windows) rep s1 where "platform env = ''win32''"
      "send_signals env p s = (rep, s1)" "trace s1 = trace s @ [Exec (taskkill_command p) rep]"
  | (graceful) out s1 where "platform env \<noteq> ''win32''"
      "send_signals env p s = (Inr out, s1)" "trace s1 = trace s @ [Exec (sigterm_command p) (Inr out)]"
  | (escalated) m rep s1 where "platform env \<noteq> ''win32''"
      "send_signals env p s = (rep, s1)"
      "trace s1 = trace s @ [Exec (sigterm_command p) (Inl m), Exec (sigkill_command p) rep]"
proof (cases "platform env = ''win32''")
  case True
  obtain rep s1 where "execPromise env (taskkill_command p) s = (rep, s1)"
    "trace s1 = trace s @ [Exec (taskkill_command p) rep]" by (rule execPromise_run)
  with True show thesis using windows by (simp add: send_signals_def)
next
  case False
  obtain rep1 s1 where 1: "execPromise env (sigterm_command p) s = (rep1, s1)"
    "trace s1 = trace s @ [Exec (sigterm_command p) rep1]" by (rule execPromise_run)
  show thesis
  proof (cases rep1)
    case (Inr out)
    with False 1 show thesis using graceful by (simp add: send_signals_def)
  next
    case (Inl m)
    obtain rep s2 where 2: "execPromise env (sigkill_command p) s1 = (rep, s2)"
      "trace s2 = trace s1 @ [Exec (sigkill_command p) rep]" by (rule execPromise_run)
    with False 1 Inl show thesis using escalated[of rep s2 m] by (simp add: send_signals_def)
  qed
qed

lemma kill_and_verify_run:
  assumes "kill_and_verify env port p nm s = (r, s')"
  obtains (undelivered) sig msg where "signal_run (platform env) p sig (Inl msg)"
      "r = failed msg p nm" "trace s' = trace s @ sig"
  | (verified) sig out again where "signal_run (platform env) p sig (Inr out)"
      "r = (if truthy (pid_of_reply (platform env) again) then still_running p nm else killed p nm)"
      "trace s' = trace s @ sig @ [Delay 500, Exec (pid_command (platform env) port) again]"
proof -
  obtain rep s1 sig where sg: "send_signals env p s = (rep, s1)" "trace s1 = trace s @ sig"
    "signal_run (platform env) p sig rep"
    by (cases rule: send_signals_run[of env p s]) (auto simp: signal_run_def)
  show thesis
  proof (cases rep)
    case (Inl msg)
    with sg assms have "r = failed msg p nm" "s' = s1" by (simp_all add: kill_and_verify_def)
    show thesis
      by (rule undelivered[of sig msg]) (use sg Inl \<open>r = failed msg p nm\<close> \<open>s' = s1\<close> in simp_all)
  next
    case (Inr out)
    obtain again s2 where g: "getPortPid env port (delay env 500 s1) = (pid_of_reply (platform env) again, s2)"
      "trace s2 = trace (delay env 500 s1) @ [Exec (pid_command (platform env) port) again]"
      by (rule getPortPid_run)
    from sg Inr g assms have
      "r = (if truthy (pid_of_reply (platform env) again) then still_running p nm else killed p nm)"
      "s' = s2"
      by (simp_all add: kill_and_verify_def split: if_splits)
    moreover have "trace s2 = trace s @ sig @ [Delay 500, Exec (pid_command (platform env) port) again]"
      using g(2) sg(2) by (simp add: delay_def)
    ultimately show thesis using sg(3) Inr
      by (intro verified[of sig out again]) simp_all
  qed
qed

lemma killPort_run:
  assumes "killPort env port force s = (r, s')"
  obtains (absent) first where "\<not> truthy (pid_of_reply (platform env) first)" "r = not_found"
      "trace s' = trace s @ [Exec (pid_command (platform env) port) first]"
  | (declined) first p nrep answer where "pid_of_reply (platform env) first = Number p" "p \<noteq> 0"
      "\<not> force" "\<not> affirmative answer" "r = cancelled"
      "trace s' = trace s @ [Exec (pid_command (platform env) port) first,
                           Exec (name_command (platform env) p) nrep,
                           Ask (question (name_of_reply (platform env) nrep) p port) answer]"
  | (undelivered) first p nrep asked sig msg where "pid_of_reply (platform env) first = Number p" "p \<noteq> 0"
      "consent force (question (name_of_reply (platform env) nrep) p port) asked"
      "signal_run (platform env) p sig (Inl msg)"
      "r = failed msg p (name_of_reply (platform env) nrep)"
      "trace s' = trace s @ [Exec (pid_command (platform env) port) first,
                           Exec (name_command (platform env) p) nrep] @ asked @ sig"
  | (verified) first p nrep asked sig out again where "pid_of_reply (platform env) first = Number p" "p \<noteq> 0"
      "consent force (question (name_of_reply (platform env) nrep) p port) asked"
      "signal_run (platform env) p sig (Inr out)"
      "r = (if truthy (pid_of_reply (platform env) again)
            then still_running p (name_of_reply (platform env) nrep)
            else killed p (name_of_reply (platform env) nrep))"
      "trace s' = trace s @ [Exec (pid_command (platform env) port) first,
                           Exec (name_command (platform env) p) nrep] @ asked @ sig
                    @ [Delay 500, Exec (pid_command (platform env) port) again]"
proof -
  let ?pf = "platform env"
  obtain first s1 where g: "getPortPid env port s = (pid_of_reply ?pf first, s1)"
    "trace s1 = trace s @ [Exec (pid_command ?pf port) first]"
    by (rule getPortPid_run)
  show thesis
  proof (cases "truthy (pid_of_reply ?pf first)")
    case False
    with g assms have "r = not_found" "s' = s1"
      by (cases "pid_of_reply (platform env) first"; simp add: killPort_def)+
    show thesis
      by (rule absent[OF False \<open>r = not_found\<close>]) (simp add: g(2) \<open>s' = s1\<close>)
  next
    case True
    then obtain p where p: "pid_of_reply ?pf first = Number p" "p \<noteq> 0"
      by (cases "pid_of_reply ?pf first") simp_all
    obtain nrep s2 where n: "execPromise env (name_command ?pf p) s1 = (nrep, s2)"
      "trace s2 = trace s1 @ [Exec (name_command ?pf p) nrep]"
      by (rule execPromise_run)
    let ?nm = "name_of_reply ?pf nrep"
    let ?q = "question ?nm p port"
    have pre: "trace s2 = trace s @ [Exec (pid_command ?pf port) first, Exec (name_command ?pf p) nrep]"
      using g(2) n(2) by simp
    show thesis
    proof (cases force)
      case True
      with g p n assms have kv: "kill_and_verify env port p ?nm s2 = (r, s')"
        by (simp add: killPort_def Let_def)
      have c: "consent force ?q []" using True by (simp add: consent_def)
      from kv show thesis
      proof (cases rule: kill_and_verify_run)
        case (undelivered sig msg)
        show thesis
          by (rule that(3)[OF p c undelivered(1,2)]) (simp add: pre undelivered(3))
      next
        case (verified sig out again)
        show thesis
          by (rule that(4)[OF p c verified(1,2)]) (simp add: pre verified(3))
      qed
    next
      case False
      obtain answer s3 where a: "askConfirmation env ?q s2 = (affirmative answer, s3)"
        "trace s3 = trace s2 @ [Ask ?q answer]"
        by (rule askConfirmation_run)
      show thesis
      proof (cases "affirmative answer")
        case no: False
        with g p n a False assms have "r = cancelled" "s' = s3"
          by (simp_all add: killPort_def Let_def)
        show thesis
          by (rule declined[OF p False no \<open>r = cancelled\<close>]) (simp add: pre a(2) \<open>s' = s3\<close>)
      next
        case yes: True
        with g p n a False assms have kv: "kill_and_verify env port p ?nm s3 = (r, s')"
          by (simp add: killPort_def Let_def)
        have c: "consent force ?q [Ask ?q answer]" using False yes by (auto simp: consent_def)
        from kv show thesis
        proof (cases rule: kill_and_verify_run)
          case (undelivered sig msg)
          show thesis
            by (rule that(3)[OF p c undelivered(1,2)]) (simp add: pre a(2) undelivered(3))
        next
          case (verified sig out again)
          show thesis
            by (rule that(4)[OF p c verified(1,2)]) (simp add: pre a(2) verified(3))
        qed
      qed
    qed
  qed
qed

lemma lookup_is_no_signal [simp]:
  "\<not> starts_with ''kill '' (pid_command pf port)"
  "\<not> starts_with ''taskkill '' (pid_command pf port)"
  "\<not> starts_with ''kill '' (name_command pf p)"
  "\<not> starts_with ''taskkill '' (name_command pf p)"
  by (simp_all add: pid_command_def name_command_def starts_with_def)

lemma kill_is_signal [simp]:
  "starts_with ''taskkill '' (taskkill_command p)"
  "starts_with ''kill '' (sigterm_command p)"
  "starts_with ''kill '' (sigkill_command p)"
  by (simp_all add: taskkill_command_def sigterm_command_def sigkill_command_def starts_with_def)

lemma signals_append [simp]: "signals (xs @ ys) = signals xs @ signals ys"
  by (simp add: signals_def)

lemma signals_Cons [simp]: "signals (e # es) = (if is_signal e then e # signals es else signals es)"
  by (simp add: signals_def)

lemma signals_Nil [simp]: "signals [] = []"
  by (simp add: signals_def)

lemma signals_consent: "consent force q asked \<Longrightarrow> signals asked = []"
  by (auto simp: consent_def split: if_splits)

lemma signals_signal_run: "signal_run pf p sig reply \<Longrightarrow> signals sig = sig"
  by (auto simp: signal_run_def split: if_splits)

lemma signal_run_last: "signal_run pf p sig reply \<Longrightarrow> \<exists>c front. sig = front @ [Exec c reply] \<and> is_signal (Exec c reply)"
  by (auto simp: signal_run_def split: if_splits)

lemma signal_run_delivered:
  "signal_run pf p sig reply \<Longrightarrow> Exec c (Inr out) \<in> set sig \<Longrightarrow> \<exists>front. sig = front @ [Exec c (Inr out)] \<and> reply = Inr out"
  by (auto simp: signal_run_def split: if_splits)

lemma consent_shape: "consent force q asked \<Longrightarrow> asked = [] \<or> (\<exists>answer. asked = [Ask q answer])"
  by (auto simp: consent_def split: if_splits)

lemmas eval_defs =
  killPort_def getPortPid_def execPromise_def delay_def host_env_def host_exec_def host_question_def
  boot_def scripted_def pid_command_def pid_of_reply_def ss_line_def
  starts_with_def is_digit_def is_space_def parseInt_def number_of_digits_def digit_value_def
  name_command_def name_of_reply_def trim_def or_unknown_def askConfirmation_def
  question_def affirmative_def toLowerCase_def to_lower_def kill_and_verify_def send_signals_def
  taskkill_command_def sigterm_command_def sigkill_command_def
  string_of_int_def string_of_nat.simps digit_char_def Let_def

lemma consent_asked: "consent force q asked \<Longrightarrow> Ask q' a \<in> set asked \<Longrightarrow> affirmative a"
  by (auto simp: consent_def split: if_splits)

lemma consent_cases:
  "consent force q asked \<Longrightarrow> force \<or> (\<exists>a. Ask q a \<in> set asked \<and> affirmative a)"
  by (auto simp: consent_def split: if_splits)

lemma signal_run_no_ask: "signal_run pf p sig reply \<Longrightarrow> Ask q a \<notin> set sig"
  by (auto simp: signal_run_def split: if_splits)

lemma suffix_two_snoc [simp]: "suffix [a, b] (xs @ [a', b']) \<longleftrightarrow> a = a' \<and> b = b'"
  by (auto simp: suffix_def)

lemma suffix_three_snoc [simp]: "suffix [a, b, c] (xs @ [a', b', c']) \<longleftrightarrow> a = a' \<and> b = b' \<and> c = c'"
  by (auto simp: suffix_def)

lemma suffix_last: "suffix (as @ [a]) (ys @ [x]) \<Longrightarrow> a = x"
  by (auto simp: suffix_def)

lemma signal_run_failed_no_delivery:
  "signal_run pf p sig (Inl msg) \<Longrightarrow> Exec c (Inr out) \<notin> set sig"
  by (auto simp: signal_run_def split: if_splits)

lemma replay_append: "replay env (xs @ ys) w = replay env ys (replay env xs w)"
  by (induction xs arbitrary: w) simp_all

lemma answered_append:
  "answered env (xs @ ys) w \<longleftrightarrow> answered env xs w \<and> answered env ys (replay env xs w)"
  by (induction xs arbitrary: w) simp_all

lemma logged_refl: "logged env s [] s"
  by (simp add: logged_def)

lemma logged_trans: "logged env s xs s1 \<Longrightarrow> logged env s1 ys s2 \<Longrightarrow> logged env s (xs @ ys) s2"
  by (simp add: logged_def replay_append answered_append)

lemma logged_unique: "logged env s xs s' \<Longrightarrow> trace s' = trace s @ ys \<Longrightarrow> xs = ys"
  by (simp add: logged_def)

lemma execPromise_logged:
  "execPromise env command s = (reply, s1) \<Longrightarrow> logged env s [Exec command reply] s1"
  by (cases "os_exec env command (world s)") (auto simp: execPromise_def logged_def)

lemma askConfirmation_logged:
  "askConfirmation env q s = (c, s1) \<Longrightarrow> \<exists>answer. c = affirmative answer \<and> logged env s [Ask q answer] s1"
  by (cases "os_question env q (world s)") (auto simp: askConfirmation_def logged_def)

lemma delay_logged: "logged env s [Delay ms] (delay env ms s)"
  by (simp add: delay_def logged_def)

lemma getPortPid_logged:
  assumes "getPortPid env port s = (v, s1)"
  shows "\<exists>reply. v = pid_of_reply (platform env) reply
           \<and> logged env s [Exec (pid_command (platform env) port) reply] s1"
proof -
  obtain reply s2 where e: "execPromise env (pid_command (platform env) port) s = (reply, s2)"
    by (cases "execPromise env (pid_command (platform env) port) s")
  with assms have "v = pid_of_reply (platform env) reply" "s1 = s2" by (simp_all add: getPortPid_def)
  with execPromise_logged[OF e] show ?thesis by blast
qed

lemma send_signals_logged:
  assumes "send_signals env p s = (reply, s1)"
  shows "\<exists>sig. logged env s sig s1"
proof (cases "platform env = ''win32''")
  case True
  with assms execPromise_logged show ?thesis by (fastforce simp: send_signals_def)
next
  case False
  obtain rep1 s2 where 1: "execPromise env (sigterm_command p) s = (rep1, s2)"
    by (cases "execPromise env (sigterm_command p) s")
  show ?thesis
  proof (cases rep1)
    case (Inr out)
    with False 1 assms have "s1 = s2" by (simp add: send_signals_def)
    with execPromise_logged[OF 1] show ?thesis by blast
  next
    case (Inl msg)
    with False 1 assms have 2: "execPromise env (sigkill_command p) s2 = (reply, s1)"
      by (simp add: send_signals_def)
    from logged_trans[OF execPromise_logged[OF 1] execPromise_logged[OF 2]] show ?thesis by blast
  qed
qed

lemma kill_and_verify_logged:
  assumes "kill_and_verify env port p nm s = (r, s')"
  shows "\<exists>evs. logged env s evs s'"
proof -
  obtain rep s1 where sg: "send_signals env p s = (rep, s1)" by (cases "send_signals env p s")
  from send_signals_logged[OF sg] obtain sig where l1: "logged env s sig s1" by blast
  show ?thesis
  proof (cases rep)
    case (Inl msg)
    with sg assms have "s' = s1" by (simp add: kill_and_verify_def)
    with l1 show ?thesis by blast
  next
    case (Inr out)
    obtain v s2 where g: "getPortPid env port (delay env 500 s1) = (v, s2)"
      by (cases "getPortPid env port (delay env 500 s1)")
    with sg Inr assms have "s' = s2" by (simp add: kill_and_verify_def split: if_splits)
    moreover from getPortPid_logged[OF g] obtain reply where
      "logged env (delay env 500 s1) [Exec (pid_command (platform env) port) reply] s2" by blast
    ultimately show ?thesis
      using logged_trans[OF logged_trans[OF l1 delay_logged[of env s1 500]]] by blast
  qed
qed

lemma killPort_logged:
  assumes "killPort env port force s = (r, s')"
  shows "\<exists>evs. logged env s evs s'"
proof -
  obtain v s1 where g: "getPortPid env port s = (v, s1)" by (cases "getPortPid env port s")
  from getPortPid_logged[OF g] obtain first where
    l1: "logged env s [Exec (pid_command (platform env) port) first] s1" by blast
  show ?thesis
  proof (cases "truthy v")
    case False
    with g assms have "s' = s1" by (cases v; simp add: killPort_def)+
    with l1 show ?thesis by blast
  next
    case True
    then obtain p where p: "v = Number p" "p \<noteq> 0" by (cases v) simp_all
    obtain nrep s2 where n: "execPromise env (name_command (platform env) p) s1 = (nrep, s2)"
      by (cases "execPromise env (name_command (platform env) p) s1")
    note l2 = logged_trans[OF l1 execPromise_logged[OF n]]
    let ?nm = "name_of_reply (platform env) nrep"
    show ?thesis
    proof (cases force)
      case True
      with g p n assms have "kill_and_verify env port p ?nm s2 = (r, s')"
        by (simp add: killPort_def Let_def)
      from kill_and_verify_logged[OF this] l2 logged_trans show ?thesis by blast
    next
      case False
      obtain c s3 where a: "askConfirmation env (question ?nm p port) s2 = (c, s3)"
        by (cases "askConfirmation env (question ?nm p port) s2")
      from askConfirmation_logged[OF a] obtain answer where
        l3: "logged env s2 [Ask (question ?nm p port) answer] s3" by blast
      note l23 = logged_trans[OF l2 l3]
      show ?thesis
      proof (cases c)
        case no: False
        with g p n a False assms have "s' = s3" by (simp add: killPort_def Let_def)
        with l23 show ?thesis by blast
      next
        case yes: True
        with g p n a False assms have "kill_and_verify env port p ?nm s3 = (r, s')"
          by (simp add: killPort_def Let_def)
        from kill_and_verify_logged[OF this] l23 logged_trans show ?thesis by blast
      qed
    qed
  qed
qed

lemma logged_reprobe:
  assumes "logged env s (before @ [Delay ms, Exec command again]) s'"
  shows "os_exec env command (os_timeout env ms (replay env before (world s))) = (again, world s')"
  using assms
  by (cases "os_exec env command (os_timeout env ms (replay env before (world s)))")
     (simp add: logged_def replay_append answered_append)

lemma killPort_reprobe_trace:
  assumes "killPort env port force s = (r, s')"
  shows "\<exists>evs. trace s' = trace s @ evs
           \<and> (\<forall>c out. Exec c (Inr out) \<in> set (signals evs) \<longrightarrow>
                 (\<exists>again. suffix [Exec c (Inr out), Delay 500,
                                   Exec (pid_command (platform env) port) again] evs))
           \<and> (success r \<longleftrightarrow>
                 (\<exists>again. suffix [Delay 500, Exec (pid_command (platform env) port) again] evs
                    \<and> \<not> truthy (pid_of_reply (platform env) again)))
           \<and> (\<forall>again. suffix [Delay 500, Exec (pid_command (platform env) port) again] evs \<longrightarrow>
                 (\<exists>first p nrep.
                    prefix [Exec (pid_command (platform env) port) first,
                            Exec (name_command (platform env) p) nrep] evs
                    \<and> pid_of_reply (platform env) first = Number p
                    \<and> r = (if truthy (pid_of_reply (platform env) again)
                           then still_running p (name_of_reply (platform env) nrep)
                           else killed p (name_of_reply (platform env) nrep)))
                 \<and> (\<exists>c out. Exec c (Inr out) \<in> set (signals evs)))"
  using assms
proof (cases rule: killPort_run)
  case (absent first)
  then show ?thesis by (simp add: not_found_def suffix_Cons)
next
  case (declined first p nrep answer)
  then show ?thesis by (simp add: cancelled_def suffix_Cons)
next
  case (undelivered first p nrep asked sig msg)
  let ?pc = "pid_command (platform env) port"
  define evs where "evs = [Exec ?pc first, Exec (name_command (platform env) p) nrep] @ asked @ sig"
  have t: "trace s' = trace s @ evs" using undelivered(6) by (simp add: evs_def)
  obtain c front where sig: "sig = front @ [Exec c (Inl msg)]" "is_signal (Exec c (Inl msg))"
    using signal_run_last[OF undelivered(4)] by blast
  have nosuf: "\<not> suffix [Delay 500, Exec ?pc again] evs" for again
  proof
    assume "suffix [Delay 500, Exec ?pc again] evs"
    then have "suffix ([Delay 500] @ [Exec ?pc again])
        (([Exec ?pc first, Exec (name_command (platform env) p) nrep] @ asked @ front) @ [Exec c (Inl msg)])"
      by (simp add: evs_def sig(1))
    from suffix_last[OF this] sig(2) show False by auto
  qed
  have sg: "signals evs = sig"
    using signals_consent[OF undelivered(3)] signals_signal_run[OF undelivered(4)]
    by (simp add: evs_def)
  have a: "\<forall>c out. Exec c (Inr out) \<in> set (signals evs) \<longrightarrow>
                 (\<exists>again. suffix [Exec c (Inr out), Delay 500, Exec ?pc again] evs)"
    unfolding sg using signal_run_failed_no_delivery[OF undelivered(4)] by blast
  have b: "success r \<longleftrightarrow> (\<exists>again. suffix [Delay 500, Exec ?pc again] evs
                    \<and> \<not> truthy (pid_of_reply (platform env) again))"
    using nosuf undelivered(5) by (simp add: failed_def)
  from t a b nosuf show ?thesis by blast
next
  case (verified first p nrep asked sig out again0)
  let ?pc = "pid_command (platform env) port"
  let ?nm = "name_of_reply (platform env) nrep"
  define front where "front = [Exec ?pc first, Exec (name_command (platform env) p) nrep] @ asked @ sig"
  define evs where "evs = front @ [Delay 500, Exec ?pc again0]"
  have t: "trace s' = trace s @ evs" using verified(6) by (simp add: evs_def front_def)
  have suf: "suffix [Delay 500, Exec ?pc again] evs \<longleftrightarrow> again = again0" for again
    by (auto simp: evs_def)
  have sg: "signals evs = sig"
    using signals_consent[OF verified(3)] signals_signal_run[OF verified(4)]
    by (simp add: evs_def front_def)
  obtain c f where sig: "sig = f @ [Exec c (Inr out)]"
    using signal_run_last[OF verified(4)] by blast
  have a: "\<forall>c out. Exec c (Inr out) \<in> set (signals evs) \<longrightarrow>
                 (\<exists>again. suffix [Exec c (Inr out), Delay 500, Exec ?pc again] evs)"
  proof (intro allI impI)
    fix c' out' assume "Exec c' (Inr out') \<in> set (signals evs)"
    then have "Exec c' (Inr out') \<in> set sig" by (simp add: sg)
    from signal_run_delivered[OF verified(4) this]
    obtain f' where "sig = f' @ [Exec c' (Inr out')]" by blast
    then have "evs = ([Exec ?pc first, Exec (name_command (platform env) p) nrep] @ asked @ f')
        @ [Exec c' (Inr out'), Delay 500, Exec ?pc again0]"
      by (simp add: evs_def front_def)
    then show "\<exists>again. suffix [Exec c' (Inr out'), Delay 500, Exec ?pc again] evs"
      by (metis suffix_three_snoc)
  qed
  have b: "success r \<longleftrightarrow> (\<exists>again. suffix [Delay 500, Exec ?pc again] evs
                    \<and> \<not> truthy (pid_of_reply (platform env) again))"
    unfolding suf using verified(5) by (simp add: still_running_def killed_def)
  have p: "prefix [Exec ?pc first, Exec (name_command (platform env) p) nrep] evs"
    by (simp add: evs_def front_def)
  have d: "\<exists>c out. Exec c (Inr out) \<in> set (signals evs)"
    unfolding sg sig by auto
  have c: "\<forall>again. suffix [Delay 500, Exec ?pc again] evs \<longrightarrow>
                 (\<exists>first p nrep.
                    prefix [Exec ?pc first, Exec (name_command (platform env) p) nrep] evs
                    \<and> pid_of_reply (platform env) first = Number p
                    \<and> r = (if truthy (pid_of_reply (platform env) again)
                           then still_running p (name_of_reply (platform env) nrep)
                           else killed p (name_of_reply (platform env) nrep)))
                 \<and> (\<exists>c out. Exec c (Inr out) \<in> set (signals evs))"
    unfolding suf using p verified(1,5) d by blast
  from t a b c show ?thesis by blast
qed

lemmas lingering_defs =
  lingering_env_def lingering_exec_def lingering_timeout_def running_def

lemma consent_not_declined:
  "consent force q asked \<Longrightarrow> asked = [Ask q answer] \<Longrightarrow> affirmative answer"
  by (auto simp: consent_def split: if_splits)

lemma consent_asked_shape:
  "consent force q asked \<Longrightarrow> (if force then asked = [] else (\<exists>answer. asked = [Ask q answer]))"
  by (auto simp: consent_def split: if_splits)

section \<open>The claims\<close>

text \<open>
  C1. The calls \<open>killPort\<close> makes are the ones its trace shows, each made in the
  world the calls before it left. After a signal that was delivered, \<open>killPort\<close> waits
  500 ms, asks again who owns the port, and returns: this second lookup is made in
  the world as it is after the timer has run, and its answer is the one the operating
  system gives there. \<open>killPort\<close> reports success exactly when that lookup finds no
  owner; when it finds one, the result is "Process may still be running" with the
  process id and name found by the first lookup. The wait and the second lookup happen
  only after a delivered signal.
\<close>

theorem killPort_verification:
  assumes "killPort env port force s = (r, s')"
  shows "\<exists>evs. logged env s evs s'
           \<and> (\<forall>c out. Exec c (Inr out) \<in> set (signals evs) \<longrightarrow>
                 (\<exists>again. suffix [Exec c (Inr out), Delay 500,
                                   Exec (pid_command (platform env) port) again] evs))
           \<and> (\<forall>before again.
                 evs = before @ [Delay 500, Exec (pid_command (platform env) port) again] \<longrightarrow>
                 os_exec env (pid_command (platform env) port)
                    (os_timeout env 500 (replay env before (world s))) = (again, world s'))
           \<and> (success r \<longleftrightarrow>
                 (\<exists>again. suffix [Delay 500, Exec (pid_command (platform env) port) again] evs
                    \<and> \<not> truthy (pid_of_reply (platform env) again)))
           \<and> (\<forall>again. suffix [Delay 500, Exec (pid_command (platform env) port) again] evs \<longrightarrow>
                 (\<exists>first p nrep.
                    prefix [Exec (pid_command (platform env) port) first,
                            Exec (name_command (platform env) p) nrep] evs
                    \<and> pid_of_reply (platform env) first = Number p
                    \<and> r = (if truthy (pid_of_reply (platform env) again)
                           then still_running p (name_of_reply (platform env) nrep)
                           else killed p (name_of_reply (platform env) nrep)))
                 \<and> (\<exists>c out. Exec c (Inr out) \<in> set (signals evs)))"
proof -
  from killPort_reprobe_trace[OF assms] obtain evs where
    t: "trace s' = trace s @ evs"
    and a: "\<forall>c out. Exec c (Inr out) \<in> set (signals evs) \<longrightarrow>
                 (\<exists>again. suffix [Exec c (Inr out), Delay 500,
                                   Exec (pid_command (platform env) port) again] evs)"
    and b: "success r \<longleftrightarrow>
                 (\<exists>again. suffix [Delay 500, Exec (pid_command (platform env) port) again] evs
                    \<and> \<not> truthy (pid_of_reply (platform env) again))"
    and c: "\<forall>again. suffix [Delay 500, Exec (pid_command (platform env) port) again] evs \<longrightarrow>
                 (\<exists>first p nrep.
                    prefix [Exec (pid_command (platform env) port) first,
                            Exec (name_command (platform env) p) nrep] evs
                    \<and> pid_of_reply (platform env) first = Number p
                    \<and> r = (if truthy (pid_of_reply (platform env) again)
                           then still_running p (name_of_reply (platform env) nrep)
                           else killed p (name_of_reply (platform env) nrep)))
                 \<and> (\<exists>c out. Exec c (Inr out) \<in> set (signals evs))"
    by blast
  from killPort_logged[OF assms] obtain evs0 where "logged env s evs0 s'" by blast
  with logged_unique[OF this t] have l: "logged env s evs s'" by simp
  have w: "\<forall>before again.
                 evs = before @ [Delay 500, Exec (pid_command (platform env) port) again] \<longrightarrow>
                 os_exec env (pid_command (platform env) port)
                    (os_timeout env 500 (replay env before (world s))) = (again, world s')"
    using l logged_reprobe by blast
  from l a w b c show ?thesis by blast
qed

theorem killPort_verification_witness:
  "success (fst (killPort lingering_env 3000 True running))
   \<and> os_exec lingering_env ''ss -tulpn | grep :3000''
        (os_timeout lingering_env 500 \<lparr>alive = True, asked_to_exit = True\<rparr>)
       = (Inl ''Command failed: ss -tulpn | grep :3000'', \<lparr>alive = False, asked_to_exit = True\<rparr>)
   \<and> fst (os_exec lingering_env ''ss -tulpn | grep :3000'' \<lparr>alive = True, asked_to_exit = True\<rparr>)
       = Inr ss_line
   \<and> \<not> success (fst (killPort (host_env ''linux'') 3000 True (boot stubborn_host)))"
proof -
  have pf: "platform (host_env ''linux'') = ''linux''" "platform lingering_env = ''linux''"
    by (simp_all add: host_env_def lingering_env_def)
  have pc: "pid_command ''linux'' 3000 = ''ss -tulpn | grep :3000''"
    by (simp add: eval_defs)
  have gone: "\<not> truthy (pid_of_reply ''linux'' (Inl ''Command failed: ss -tulpn | grep :3000''))"
    by (simp add: pid_of_reply_def)
  have there: "truthy (pid_of_reply ''linux'' (Inr ss_line))"
    by (simp add: eval_defs)
  have run1: "killPort lingering_env 3000 True running =
      (killed 4242 ''node'',
       \<lparr>trace = [Exec ''ss -tulpn | grep :3000'' (Inr ss_line),
                 Exec ''ps -p 4242 -o comm='' (Inr ''node''),
                 Exec ''kill -TERM 4242'' (Inr [])]
                @ [Delay 500,
                   Exec ''ss -tulpn | grep :3000'' (Inl ''Command failed: ss -tulpn | grep :3000'')],
        world = \<lparr>alive = False, asked_to_exit = True\<rparr>\<rparr>)"
    by (simp add: eval_defs lingering_defs killed_def)
  have run2: "killPort (host_env ''linux'') 3000 True (boot stubborn_host) =
      (still_running 4242 ''node'',
       \<lparr>trace = [Exec ''ss -tulpn | grep :3000'' (Inr ss_line),
                 Exec ''ps -p 4242 -o comm='' (Inr ''node''),
                 Exec ''kill -TERM 4242'' (Inr [])]
                @ [Delay 500, Exec ''ss -tulpn | grep :3000'' (Inr ss_line)],
        world = scripted [] []\<rparr>)"
    by (simp add: eval_defs stubborn_host_def still_running_def)
  have tr: "trace (boot h) = []" "trace running = []" for h by (simp_all add: boot_def running_def)
  have before: "replay lingering_env
      [Exec ''ss -tulpn | grep :3000'' (Inr ss_line),
       Exec ''ps -p 4242 -o comm='' (Inr ''node''),
       Exec ''kill -TERM 4242'' (Inr [])] (world running) = \<lparr>alive = True, asked_to_exit = True\<rparr>"
    by (simp add: lingering_defs starts_with_def)
  from killPort_verification[OF run1] obtain evs1 where
    l1: "logged lingering_env running evs1
          \<lparr>trace = [Exec ''ss -tulpn | grep :3000'' (Inr ss_line),
                    Exec ''ps -p 4242 -o comm='' (Inr ''node''),
                    Exec ''kill -TERM 4242'' (Inr [])]
                   @ [Delay 500,
                      Exec ''ss -tulpn | grep :3000'' (Inl ''Command failed: ss -tulpn | grep :3000'')],
           world = \<lparr>alive = False, asked_to_exit = True\<rparr>\<rparr>"
    and w1: "\<forall>before again. evs1 = before @ [Delay 500, Exec ''ss -tulpn | grep :3000'' again] \<longrightarrow>
          os_exec lingering_env ''ss -tulpn | grep :3000''
            (os_timeout lingering_env 500 (replay lingering_env before (world running)))
          = (again, \<lparr>alive = False, asked_to_exit = True\<rparr>)"
    and b1: "success (killed 4242 ''node'') \<longleftrightarrow>
      (\<exists>again. suffix [Delay 500, Exec ''ss -tulpn | grep :3000'' again] evs1
         \<and> \<not> truthy (pid_of_reply ''linux'' again))"
    unfolding pf pc by (simp only: state.simps) blast
  have t1: "[Exec ''ss -tulpn | grep :3000'' (Inr ss_line),
             Exec ''ps -p 4242 -o comm='' (Inr ''node''),
             Exec ''kill -TERM 4242'' (Inr [])]
            @ [Delay 500,
               Exec ''ss -tulpn | grep :3000'' (Inl ''Command failed: ss -tulpn | grep :3000'')] = evs1"
    using l1 unfolding logged_def tr by (simp only: state.simps append_Nil)
  have "suffix [Delay 500, Exec ''ss -tulpn | grep :3000''
      (Inl ''Command failed: ss -tulpn | grep :3000'')] evs1"
    unfolding t1[symmetric] by (simp only: suffix_two_snoc)
  with b1 gone have yes: "success (killed 4242 ''node'')" by blast
  from w1 t1[symmetric] have after: "os_exec lingering_env ''ss -tulpn | grep :3000''
        (os_timeout lingering_env 500 \<lparr>alive = True, asked_to_exit = True\<rparr>)
       = (Inl ''Command failed: ss -tulpn | grep :3000'', \<lparr>alive = False, asked_to_exit = True\<rparr>)"
    unfolding before[symmetric] by blast
  have without: "fst (os_exec lingering_env ''ss -tulpn | grep :3000'' \<lparr>alive = True, asked_to_exit = True\<rparr>)
       = Inr ss_line"
    by (simp add: lingering_defs starts_with_def)
  from killPort_verification[OF run2] obtain evs2 where
    l2: "logged (host_env ''linux'') (boot stubborn_host) evs2
          \<lparr>trace = [Exec ''ss -tulpn | grep :3000'' (Inr ss_line),
                    Exec ''ps -p 4242 -o comm='' (Inr ''node''),
                    Exec ''kill -TERM 4242'' (Inr [])]
                   @ [Delay 500, Exec ''ss -tulpn | grep :3000'' (Inr ss_line)],
           world = scripted [] []\<rparr>"
    and b2: "success (still_running 4242 ''node'') \<longleftrightarrow>
      (\<exists>again. suffix [Delay 500, Exec ''ss -tulpn | grep :3000'' again] evs2
         \<and> \<not> truthy (pid_of_reply ''linux'' again))"
    unfolding pf pc by (simp only: state.simps) blast
  have t2: "[Exec ''ss -tulpn | grep :3000'' (Inr ss_line),
             Exec ''ps -p 4242 -o comm='' (Inr ''node''),
             Exec ''kill -TERM 4242'' (Inr [])]
            @ [Delay 500, Exec ''ss -tulpn | grep :3000'' (Inr ss_line)] = evs2"
    using l2 unfolding logged_def tr by (simp only: state.simps append_Nil)
  have "again = Inr ss_line"
    if "suffix [Delay 500, Exec ''ss -tulpn | grep :3000'' again] evs2" for again
    using that unfolding t2[symmetric] by (simp only: suffix_two_snoc event.inject)
  with b2 there have no: "\<not> success (still_running 4242 ''node'')" by blast
  from yes after without no show ?thesis by (simp add: run1 run2)
qed

text \<open>
  C2. \<open>findAvailablePort\<close> returns the start port when it is available (first
  conjunct). For a start port in \<open>0..65535\<close> it probes the candidates
  \<open>startPort, startPort + 1, ...\<close> in this order, at most \<open>maxAttempts - 1\<close> of them
  after the start port and none above 65535, stops at the first free one and returns
  it; when none is free it throws the error of the exhausted search (second
  conjunct). A start port outside \<open>0..65535\<close> makes \<open>listen\<close> throw (third conjunct).
  Whatever the start port, a returned port lies between the start port and 65535
  (fourth conjunct).
\<close>

theorem findAvailablePort_linear_search:
  assumes "findAvailablePort env startPort maxAttempts s = (r, s')"
  shows "(\<forall>s1. isPortAvailable env startPort s = (Inr True, s1) \<longrightarrow> r = Inr startPort \<and> s' = s1)
       \<and> (0 \<le> startPort \<and> startPort \<le> 65535 \<longrightarrow>
            (\<exists>evs. trace s' = trace s @ evs \<and>
               (case r of
                  Inr port \<Rightarrow> scanned (candidates startPort maxAttempts) evs (Some port)
                | Inl e \<Rightarrow> e = exhausted maxAttempts
                           \<and> scanned (candidates startPort maxAttempts) evs None)))
       \<and> (startPort < 0 \<or> 65535 < startPort \<longrightarrow> r = Inl RangeError \<and> s' = s)
       \<and> (\<forall>port. r = Inr port \<longrightarrow> startPort \<le> port \<and> port \<le> 65535)"
proof (intro conjI)
  show "\<forall>s1. isPortAvailable env startPort s = (Inr True, s1) \<longrightarrow> r = Inr startPort \<and> s' = s1"
    using assms by (auto simp: findAvailablePort_def)
  show "0 \<le> startPort \<and> startPort \<le> 65535 \<longrightarrow>
            (\<exists>evs. trace s' = trace s @ evs \<and>
               (case r of
                  Inr port \<Rightarrow> scanned (candidates startPort maxAttempts) evs (Some port)
                | Inl e \<Rightarrow> e = exhausted maxAttempts
                           \<and> scanned (candidates startPort maxAttempts) evs None))"
    using findAvailablePort_scanned[OF assms] by blast
  show bad: "startPort < 0 \<or> 65535 < startPort \<longrightarrow> r = Inl RangeError \<and> s' = s"
    using assms by (auto simp: findAvailablePort_def isPortAvailable_invalid)
  show "\<forall>port. r = Inr port \<longrightarrow> startPort \<le> port \<and> port \<le> 65535"
  proof (intro allI impI)
    fix port assume r: "r = Inr port"
    with bad have v: "0 \<le> startPort" "startPort \<le> 65535" by auto
    from findAvailablePort_scanned[OF assms v] r
    have "port \<in> set (candidates startPort maxAttempts)" by (auto dest: scanned_member)
    with v show "startPort \<le> port \<and> port \<le> 65535" by (auto simp: candidates_def)
  qed
qed

theorem findAvailablePort_linear_search_witness:
  "fst (findAvailablePort (host_env ''linux'') 3000 6 (boot busy_host)) = Inr 3005
   \<and> scanned [3000, 3001, 3002, 3003, 3004, 3005]
     [Listen 3000 (Some ''EADDRINUSE''), Listen 3001 (Some ''EADDRINUSE''),
      Listen 3002 (Some ''EADDRINUSE''), Listen 3003 (Some ''EADDRINUSE''),
      Listen 3004 (Some ''EADDRINUSE''), Listen 3005 None, Close 3005] (Some 3005)
   \<and> (3000 :: int) \<le> 3005 \<and> (3005 :: int) \<le> 65535"
proof -
  have run: "findAvailablePort (host_env ''linux'') 3000 6 (boot busy_host) =
      (Inr 3005, \<lparr>trace = [Listen 3000 (Some ''EADDRINUSE''), Listen 3001 (Some ''EADDRINUSE''),
          Listen 3002 (Some ''EADDRINUSE''), Listen 3003 (Some ''EADDRINUSE''),
          Listen 3004 (Some ''EADDRINUSE''), Listen 3005 None, Close 3005], world = busy_host\<rparr>)"
    by code_simp
  have c: "candidates 3000 6 = [3000, 3001, 3002, 3003, 3004, 3005]" by code_simp
  have "fst (findAvailablePort (host_env ''linux'') 3000 6 (boot busy_host)) = Inr 3005"
    by (simp add: run)
  with findAvailablePort_linear_search[OF run] show ?thesis
    by (simp add: c boot_def)
qed




text \<open>
  C4. The first step of \<open>killPort\<close> asks who owns the port. When nobody is found it
  returns "No process found on this port" and sends no signal. When \<open>force\<close> is unset
  and the answer to the question is not yes, it returns "Cancelled by user" and
  sends no signal. A signal is only sent when an owner was found and either \<open>force\<close>
  is set or the question was answered yes.
\<close>

theorem killPort_signal_gate:
  assumes "killPort env port force s = (r, s')"
  shows "\<exists>evs first rest. trace s' = trace s @ evs
           \<and> evs = Exec (pid_command (platform env) port) first # rest
           \<and> (\<not> truthy (pid_of_reply (platform env) first) \<longrightarrow> r = not_found \<and> signals evs = [])
           \<and> (\<forall>q answer. \<not> force \<and> Ask q answer \<in> set evs \<and> \<not> affirmative answer
                  \<longrightarrow> r = cancelled \<and> signals evs = [])
           \<and> (signals evs \<noteq> [] \<longrightarrow>
                  truthy (pid_of_reply (platform env) first)
                  \<and> (force \<or> (\<exists>q answer. Ask q answer \<in> set evs \<and> affirmative answer)))"
  using assms
proof (cases rule: killPort_run)
  case (absent first)
  then show ?thesis by simp
next
  case (declined first p nrep answer)
  then show ?thesis by simp
next
  case (undelivered first p nrep asked sig msg)
  define rest where "rest = Exec (name_command (platform env) p) nrep # asked @ sig"
  define evs where "evs = Exec (pid_command (platform env) port) first # rest"
  have t: "trace s' = trace s @ evs" using undelivered(6) by (simp add: evs_def rest_def)
  have e: "evs = Exec (pid_command (platform env) port) first # rest" by (simp add: evs_def)
  have a: "\<not> truthy (pid_of_reply (platform env) first) \<longrightarrow> r = not_found \<and> signals evs = []"
    using undelivered(1,2) by simp
  have b: "\<forall>q answer. \<not> force \<and> Ask q answer \<in> set evs \<and> \<not> affirmative answer
             \<longrightarrow> r = cancelled \<and> signals evs = []"
    using consent_asked[OF undelivered(3)] signal_run_no_ask[OF undelivered(4)]
    by (auto simp: evs_def rest_def)
  have c: "signals evs \<noteq> [] \<longrightarrow> truthy (pid_of_reply (platform env) first)
             \<and> (force \<or> (\<exists>q answer. Ask q answer \<in> set evs \<and> affirmative answer))"
    using consent_cases[OF undelivered(3)] undelivered(1,2)
    by (auto simp: evs_def rest_def)
  from t e a b c show ?thesis by blast
next
  case (verified first p nrep asked sig out again)
  define rest where "rest = Exec (name_command (platform env) p) nrep # asked @ sig
      @ [Delay 500, Exec (pid_command (platform env) port) again]"
  define evs where "evs = Exec (pid_command (platform env) port) first # rest"
  have t: "trace s' = trace s @ evs" using verified(6) by (simp add: evs_def rest_def)
  have e: "evs = Exec (pid_command (platform env) port) first # rest" by (simp add: evs_def)
  have a: "\<not> truthy (pid_of_reply (platform env) first) \<longrightarrow> r = not_found \<and> signals evs = []"
    using verified(1,2) by simp
  have b: "\<forall>q answer. \<not> force \<and> Ask q answer \<in> set evs \<and> \<not> affirmative answer
             \<longrightarrow> r = cancelled \<and> signals evs = []"
    using consent_asked[OF verified(3)] signal_run_no_ask[OF verified(4)]
    by (auto simp: evs_def rest_def)
  have c: "signals evs \<noteq> [] \<longrightarrow> truthy (pid_of_reply (platform env) first)
             \<and> (force \<or> (\<exists>q answer. Ask q answer \<in> set evs \<and> affirmative answer))"
    using consent_cases[OF verified(3)] verified(1,2)
    by (auto simp: evs_def rest_def)
  from t e a b c show ?thesis by blast
qed

theorem killPort_signal_gate_witness:
  "fst (killPort (host_env ''linux'') 3000 False (boot declining_host)) = cancelled
   \<and> signals (trace (snd (killPort (host_env ''linux'') 3000 False (boot declining_host)))) = []"
proof -
  have run: "killPort (host_env ''linux'') 3000 False (boot declining_host) =
      (cancelled,
       \<lparr>trace = [Exec ''ss -tulpn | grep :3000'' (Inr ss_line),
                 Exec ''ps -p 4242 -o comm='' (Inr ''node''),
                 Ask ''Are you sure you want to kill process node (PID: 4242) on port 3000? (y/N): '' ''n''],
        world = scripted [] []\<rparr>)"
    by (simp add: eval_defs declining_host_def cancelled_def)
  have no: "\<not> affirmative ''n''" by (simp add: affirmative_def toLowerCase_def to_lower_def)
  from killPort_signal_gate[OF run] obtain evs where
    t: "[Exec ''ss -tulpn | grep :3000'' (Inr ss_line),
         Exec ''ps -p 4242 -o comm='' (Inr ''node''),
         Ask ''Are you sure you want to kill process node (PID: 4242) on port 3000? (y/N): '' ''n''] = evs"
    and b: "\<forall>q answer. \<not> False \<and> Ask q answer \<in> set evs \<and> \<not> affirmative answer
             \<longrightarrow> cancelled = cancelled \<and> signals evs = []"
    by (auto simp: boot_def)
  have "Ask ''Are you sure you want to kill process node (PID: 4242) on port 3000? (y/N): '' ''n'' \<in> set evs"
    unfolding t[symmetric] by simp
  with b no have "signals evs = []" by blast
  then show ?thesis unfolding run using t by simp
qed

text \<open>
  C5. The calls \<open>killPort\<close> makes are the ones its trace shows, and the first asks
  who owns the port. When an owner \<open>p\<close> is found, its name is looked up and, unless
  \<open>force\<close> is set, the question is asked. Once \<open>force\<close> is set or the answer is
  yes, signals are sent to \<open>p\<close>, and they are the next calls: the graceful
  \<open>kill -TERM\<close> first, and the forceful \<open>kill -9\<close> after it only when \<open>kill -TERM\<close>
  was rejected; on Windows, where the code has no graceful form, the forceful
  \<open>taskkill /F\<close> alone. When the last signal is rejected with a message, \<open>killPort\<close>
  returns that message with the process id and the process name; when it is
  delivered, the result is that of the verification.
\<close>

theorem killPort_escalation:
  assumes "killPort env port force s = (r, s')"
  shows "\<exists>evs first. logged env s evs s'
           \<and> prefix [Exec (pid_command (platform env) port) first] evs
           \<and> (\<not> truthy (pid_of_reply (platform env) first) \<longrightarrow> r = not_found \<and> signals evs = [])
           \<and> (\<forall>p. pid_of_reply (platform env) first = Number p \<and> p \<noteq> 0 \<longrightarrow>
                (\<exists>nrep asked rest.
                   evs = Exec (pid_command (platform env) port) first
                           # Exec (name_command (platform env) p) nrep # asked @ rest
                   \<and> (if force then asked = []
                       else (\<exists>answer. asked = [Ask (question (name_of_reply (platform env) nrep) p port) answer]))
                   \<and> ((\<exists>answer. asked = [Ask (question (name_of_reply (platform env) nrep) p port) answer]
                                 \<and> \<not> affirmative answer)
                        \<longrightarrow> r = cancelled \<and> rest = [])
                   \<and> (consent force (question (name_of_reply (platform env) nrep) p port) asked \<longrightarrow>
                        (\<exists>reply. signal_run (platform env) p (signals evs) reply
                           \<and> prefix (signals evs) rest
                           \<and> (\<forall>msg. reply = Inl msg \<longrightarrow>
                                 r = failed msg p (name_of_reply (platform env) nrep))
                           \<and> (\<forall>out. reply = Inr out \<longrightarrow>
                                 r = still_running p (name_of_reply (platform env) nrep)
                                 \<or> r = killed p (name_of_reply (platform env) nrep))))))"
proof -
  let ?pf = "platform env"
  let ?pc = "pid_command ?pf port"
  from killPort_logged[OF assms] obtain evs0 where l0: "logged env s evs0 s'" by blast
  from assms show ?thesis
  proof (cases rule: killPort_run)
    case (absent first)
    from logged_unique[OF l0 absent(3)] l0 have l: "logged env s [Exec ?pc first] s'" by simp
    have "\<forall>p. pid_of_reply ?pf first = Number p \<and> p \<noteq> 0 \<longrightarrow> False"
      using absent(1) by auto
    with l absent(2) absent(1) show ?thesis
      by (intro exI[of _ "[Exec ?pc first]"] exI[of _ first]) simp
  next
    case (declined first p nrep answer)
    let ?q = "question (name_of_reply ?pf nrep) p port"
    let ?evs = "[Exec ?pc first, Exec (name_command ?pf p) nrep, Ask ?q answer]"
    from logged_unique[OF l0 declined(6)] l0 have l: "logged env s ?evs s'" by simp
    have nc: "\<not> consent force ?q [Ask ?q answer]"
      using declined(3,4) by (simp add: consent_def)
    have body: "\<exists>nrep' asked rest.
                   ?evs = Exec ?pc first # Exec (name_command ?pf p) nrep' # asked @ rest
                   \<and> (if force then asked = []
                       else (\<exists>answer. asked = [Ask (question (name_of_reply ?pf nrep') p port) answer]))
                   \<and> ((\<exists>answer. asked = [Ask (question (name_of_reply ?pf nrep') p port) answer]
                                 \<and> \<not> affirmative answer)
                        \<longrightarrow> r = cancelled \<and> rest = [])
                   \<and> (consent force (question (name_of_reply ?pf nrep') p port) asked \<longrightarrow>
                        (\<exists>reply. signal_run ?pf p (signals ?evs) reply
                           \<and> prefix (signals ?evs) rest
                           \<and> (\<forall>msg. reply = Inl msg \<longrightarrow>
                                 r = failed msg p (name_of_reply ?pf nrep'))
                           \<and> (\<forall>out. reply = Inr out \<longrightarrow>
                                 r = still_running p (name_of_reply ?pf nrep')
                                 \<or> r = killed p (name_of_reply ?pf nrep'))))"
      using declined(3,5) nc
      by (intro exI[of _ nrep] exI[of _ "[Ask ?q answer]"] exI[of _ "[]"]) simp
    have "\<forall>p'. pid_of_reply ?pf first = Number p' \<and> p' \<noteq> 0 \<longrightarrow>
           (\<exists>nrep' asked rest.
                   ?evs = Exec ?pc first # Exec (name_command ?pf p') nrep' # asked @ rest
                   \<and> (if force then asked = []
                       else (\<exists>answer. asked = [Ask (question (name_of_reply ?pf nrep') p' port) answer]))
                   \<and> ((\<exists>answer. asked = [Ask (question (name_of_reply ?pf nrep') p' port) answer]
                                 \<and> \<not> affirmative answer)
                        \<longrightarrow> r = cancelled \<and> rest = [])
                   \<and> (consent force (question (name_of_reply ?pf nrep') p' port) asked \<longrightarrow>
                        (\<exists>reply. signal_run ?pf p' (signals ?evs) reply
                           \<and> prefix (signals ?evs) rest
                           \<and> (\<forall>msg. reply = Inl msg \<longrightarrow>
                                 r = failed msg p' (name_of_reply ?pf nrep'))
                           \<and> (\<forall>out. reply = Inr out \<longrightarrow>
                                 r = still_running p' (name_of_reply ?pf nrep')
                                 \<or> r = killed p' (name_of_reply ?pf nrep')))))"
      using body declined(1) by auto
    moreover have "\<not> truthy (pid_of_reply ?pf first) \<longrightarrow> r = not_found \<and> signals ?evs = []"
      using declined(1,2) by simp
    moreover have "prefix [Exec ?pc first] ?evs" by simp
    ultimately show ?thesis using l
      by (intro exI[of _ ?evs] exI[of _ first]) blast
  next
    case (undelivered first p nrep asked sig msg)
    let ?nm = "name_of_reply ?pf nrep"
    let ?q = "question ?nm p port"
    let ?evs = "Exec ?pc first # Exec (name_command ?pf p) nrep # asked @ sig"
    have tr: "trace s' = trace s @ ?evs" using undelivered(6) by simp
    from logged_unique[OF l0 tr] l0 have l: "logged env s ?evs s'" by simp
    have sg: "signals ?evs = sig"
      using signals_consent[OF undelivered(3)] signals_signal_run[OF undelivered(4)] by simp
    have body: "\<exists>nrep' asked' rest.
                   ?evs = Exec ?pc first # Exec (name_command ?pf p) nrep' # asked' @ rest
                   \<and> (if force then asked' = []
                       else (\<exists>answer. asked' = [Ask (question (name_of_reply ?pf nrep') p port) answer]))
                   \<and> ((\<exists>answer. asked' = [Ask (question (name_of_reply ?pf nrep') p port) answer]
                                 \<and> \<not> affirmative answer)
                        \<longrightarrow> r = cancelled \<and> rest = [])
                   \<and> (consent force (question (name_of_reply ?pf nrep') p port) asked' \<longrightarrow>
                        (\<exists>reply. signal_run ?pf p (signals ?evs) reply
                           \<and> prefix (signals ?evs) rest
                           \<and> (\<forall>msg. reply = Inl msg \<longrightarrow>
                                 r = failed msg p (name_of_reply ?pf nrep'))
                           \<and> (\<forall>out. reply = Inr out \<longrightarrow>
                                 r = still_running p (name_of_reply ?pf nrep')
                                 \<or> r = killed p (name_of_reply ?pf nrep'))))"
    proof -
      have f1: "if force then asked = [] else (\<exists>answer. asked = [Ask ?q answer])"
        by (rule consent_asked_shape[OF undelivered(3)])
      have f2: "\<not> (\<exists>answer. asked = [Ask ?q answer] \<and> \<not> affirmative answer)"
        using consent_not_declined[OF undelivered(3)] by blast
      have f3: "\<exists>reply. signal_run ?pf p (signals ?evs) reply
                           \<and> prefix (signals ?evs) sig
                           \<and> (\<forall>msg. reply = Inl msg \<longrightarrow> r = failed msg p ?nm)
                           \<and> (\<forall>out. reply = Inr out \<longrightarrow>
                                 r = still_running p ?nm \<or> r = killed p ?nm)"
        unfolding sg using undelivered(4,5) by (intro exI[of _ "Inl msg"]) simp
      show ?thesis
        apply (rule exI[of _ nrep], rule exI[of _ asked], rule exI[of _ sig])
        using f1 f2 f3 by (simp; blast)
    qed
    have "\<forall>p'. pid_of_reply ?pf first = Number p' \<and> p' \<noteq> 0 \<longrightarrow>
           (\<exists>nrep' asked' rest.
                   ?evs = Exec ?pc first # Exec (name_command ?pf p') nrep' # asked' @ rest
                   \<and> (if force then asked' = []
                       else (\<exists>answer. asked' = [Ask (question (name_of_reply ?pf nrep') p' port) answer]))
                   \<and> ((\<exists>answer. asked' = [Ask (question (name_of_reply ?pf nrep') p' port) answer]
                                 \<and> \<not> affirmative answer)
                        \<longrightarrow> r = cancelled \<and> rest = [])
                   \<and> (consent force (question (name_of_reply ?pf nrep') p' port) asked' \<longrightarrow>
                        (\<exists>reply. signal_run ?pf p' (signals ?evs) reply
                           \<and> prefix (signals ?evs) rest
                           \<and> (\<forall>msg. reply = Inl msg \<longrightarrow>
                                 r = failed msg p' (name_of_reply ?pf nrep'))
                           \<and> (\<forall>out. reply = Inr out \<longrightarrow>
                                 r = still_running p' (name_of_reply ?pf nrep')
                                 \<or> r = killed p' (name_of_reply ?pf nrep')))))"
      using body undelivered(1) by auto
    moreover have "\<not> truthy (pid_of_reply ?pf first) \<longrightarrow> r = not_found \<and> signals ?evs = []"
      using undelivered(1,2) by simp
    moreover have "prefix [Exec ?pc first] ?evs" by simp
    ultimately show ?thesis using l
      by (intro exI[of _ ?evs] exI[of _ first]) blast
  next
    case (verified first p nrep asked sig out again)
    let ?nm = "name_of_reply ?pf nrep"
    let ?q = "question ?nm p port"
    let ?rest = "sig @ [Delay 500, Exec ?pc again]"
    let ?evs = "Exec ?pc first # Exec (name_command ?pf p) nrep # asked @ ?rest"
    have tr: "trace s' = trace s @ ?evs" using verified(6) by simp
    from logged_unique[OF l0 tr] l0 have l: "logged env s ?evs s'" by simp
    have sg: "signals ?evs = sig"
      using signals_consent[OF verified(3)] signals_signal_run[OF verified(4)] by simp
    have body: "\<exists>nrep' asked' rest.
                   ?evs = Exec ?pc first # Exec (name_command ?pf p) nrep' # asked' @ rest
                   \<and> (if force then asked' = []
                       else (\<exists>answer. asked' = [Ask (question (name_of_reply ?pf nrep') p port) answer]))
                   \<and> ((\<exists>answer. asked' = [Ask (question (name_of_reply ?pf nrep') p port) answer]
                                 \<and> \<not> affirmative answer)
                        \<longrightarrow> r = cancelled \<and> rest = [])
                   \<and> (consent force (question (name_of_reply ?pf nrep') p port) asked' \<longrightarrow>
                        (\<exists>reply. signal_run ?pf p (signals ?evs) reply
                           \<and> prefix (signals ?evs) rest
                           \<and> (\<forall>msg. reply = Inl msg \<longrightarrow>
                                 r = failed msg p (name_of_reply ?pf nrep'))
                           \<and> (\<forall>out. reply = Inr out \<longrightarrow>
                                 r = still_running p (name_of_reply ?pf nrep')
                                 \<or> r = killed p (name_of_reply ?pf nrep'))))"
    proof -
      have f1: "if force then asked = [] else (\<exists>answer. asked = [Ask ?q answer])"
        by (rule consent_asked_shape[OF verified(3)])
      have f2: "\<not> (\<exists>answer. asked = [Ask ?q answer] \<and> \<not> affirmative answer)"
        using consent_not_declined[OF verified(3)] by blast
      have f3: "\<exists>reply. signal_run ?pf p (signals ?evs) reply
                           \<and> prefix (signals ?evs) ?rest
                           \<and> (\<forall>msg. reply = Inl msg \<longrightarrow> r = failed msg p ?nm)
                           \<and> (\<forall>out. reply = Inr out \<longrightarrow>
                                 r = still_running p ?nm \<or> r = killed p ?nm)"
        unfolding sg using verified(4,5) by (intro exI[of _ "Inr out"]) simp
      show ?thesis
        apply (rule exI[of _ nrep], rule exI[of _ asked], rule exI[of _ ?rest])
        using f1 f2 f3 by (simp; blast)
    qed
    have "\<forall>p'. pid_of_reply ?pf first = Number p' \<and> p' \<noteq> 0 \<longrightarrow>
           (\<exists>nrep' asked' rest.
                   ?evs = Exec ?pc first # Exec (name_command ?pf p') nrep' # asked' @ rest
                   \<and> (if force then asked' = []
                       else (\<exists>answer. asked' = [Ask (question (name_of_reply ?pf nrep') p' port) answer]))
                   \<and> ((\<exists>answer. asked' = [Ask (question (name_of_reply ?pf nrep') p' port) answer]
                                 \<and> \<not> affirmative answer)
                        \<longrightarrow> r = cancelled \<and> rest = [])
                   \<and> (consent force (question (name_of_reply ?pf nrep') p' port) asked' \<longrightarrow>
                        (\<exists>reply. signal_run ?pf p' (signals ?evs) reply
                           \<and> prefix (signals ?evs) rest
                           \<and> (\<forall>msg. reply = Inl msg \<longrightarrow>
                                 r = failed msg p' (name_of_reply ?pf nrep'))
                           \<and> (\<forall>out. reply = Inr out \<longrightarrow>
                                 r = still_running p' (name_of_reply ?pf nrep')
                                 \<or> r = killed p' (name_of_reply ?pf nrep')))))"
      using body verified(1) by auto
    moreover have "\<not> truthy (pid_of_reply ?pf first) \<longrightarrow> r = not_found \<and> signals ?evs = []"
      using verified(1,2) by simp
    moreover have "prefix [Exec ?pc first] ?evs" by simp
    ultimately show ?thesis using l
      by (intro exI[of _ ?evs] exI[of _ first]) blast
  qed
qed

theorem killPort_escalation_witness:
  "(\<exists>nrep reply.
      signal_run ''linux'' 4242
        (signals [Exec ''ss -tulpn | grep :3000'' (Inr ss_line),
                  Exec ''ps -p 4242 -o comm='' (Inr ''node''),
                  Exec ''kill -TERM 4242'' (Inl ''Command failed: kill -TERM 4242''),
                  Exec ''kill -9 4242'' (Inl ''Command failed: kill -9 4242'')]) reply
      \<and> (\<forall>msg. reply = Inl msg \<longrightarrow>
            fst (killPort (host_env ''linux'') 3000 True (boot protected_host))
              = failed msg 4242 (name_of_reply ''linux'' nrep)))
   \<and> fst (killPort (host_env ''linux'') 3000 True (boot protected_host))
       = failed ''Command failed: kill -9 4242'' 4242 ''node''
   \<and> (\<exists>nrep reply.
      signal_run ''win32'' 4242
        (signals [Exec ''netstat -ano | findstr :3000 | findstr LISTENING'' (Inr netstat_line),
                  Exec (name_command ''win32'' 4242) (Inr ''node.exe,4242,Console,1,50000 K''),
                  Exec ''taskkill /PID 4242 /F'' (Inl ''Command failed: taskkill /PID 4242 /F'')]) reply
      \<and> (\<forall>msg. reply = Inl msg \<longrightarrow>
            fst (killPort (host_env ''win32'') 3000 True (boot windows_host))
              = failed msg 4242 (name_of_reply ''win32'' nrep)))
   \<and> fst (killPort (host_env ''win32'') 3000 True (boot windows_host))
       = failed ''Command failed: taskkill /PID 4242 /F'' 4242 ''node.exe''"
proof -
  let ?l = "[Exec ''ss -tulpn | grep :3000'' (Inr ss_line),
             Exec ''ps -p 4242 -o comm='' (Inr ''node''),
             Exec ''kill -TERM 4242'' (Inl ''Command failed: kill -TERM 4242''),
             Exec ''kill -9 4242'' (Inl ''Command failed: kill -9 4242'')]"
  let ?w = "[Exec ''netstat -ano | findstr :3000 | findstr LISTENING'' (Inr netstat_line),
             Exec (name_command ''win32'' 4242) (Inr ''node.exe,4242,Console,1,50000 K''),
             Exec ''taskkill /PID 4242 /F'' (Inl ''Command failed: taskkill /PID 4242 /F'')]"
  have pf: "platform (host_env ''linux'') = ''linux''" "platform (host_env ''win32'') = ''win32''"
    by (simp_all add: host_env_def)
  have tr: "trace (boot h) = []" for h by (simp add: boot_def)
  have yes: "consent True q []" for q by (simp add: consent_def)
  have runl: "killPort (host_env ''linux'') 3000 True (boot protected_host) =
      (failed ''Command failed: kill -9 4242'' 4242 ''node'', \<lparr>trace = ?l, world = scripted [] [''yes'']\<rparr>)"
    by (simp add: eval_defs protected_host_def failed_def)
  have pidl: "pid_of_reply ''linux'' (Inr ss_line) = Number 4242" by (simp add: eval_defs)
  from killPort_escalation[OF runl] obtain evs first where
    l: "logged (host_env ''linux'') (boot protected_host) evs \<lparr>trace = ?l, world = scripted [] [''yes'']\<rparr>"
    and p: "prefix [Exec (pid_command ''linux'' 3000) first] evs"
    and c: "\<forall>p. pid_of_reply ''linux'' first = Number p \<and> p \<noteq> 0 \<longrightarrow>
                (\<exists>nrep asked rest.
                   evs = Exec (pid_command ''linux'' 3000) first # Exec (name_command ''linux'' p) nrep # asked @ rest
                   \<and> (if True then asked = []
                       else (\<exists>answer. asked = [Ask (question (name_of_reply ''linux'' nrep) p 3000) answer]))
                   \<and> ((\<exists>answer. asked = [Ask (question (name_of_reply ''linux'' nrep) p 3000) answer]
                                 \<and> \<not> affirmative answer)
                        \<longrightarrow> failed ''Command failed: kill -9 4242'' 4242 ''node'' = cancelled \<and> rest = [])
                   \<and> (consent True (question (name_of_reply ''linux'' nrep) p 3000) asked \<longrightarrow>
                        (\<exists>reply. signal_run ''linux'' p (signals evs) reply
                           \<and> prefix (signals evs) rest
                           \<and> (\<forall>msg. reply = Inl msg \<longrightarrow>
                                 failed ''Command failed: kill -9 4242'' 4242 ''node''
                                   = failed msg p (name_of_reply ''linux'' nrep))
                           \<and> (\<forall>out. reply = Inr out \<longrightarrow>
                                 failed ''Command failed: kill -9 4242'' 4242 ''node''
                                   = still_running p (name_of_reply ''linux'' nrep)
                                 \<or> failed ''Command failed: kill -9 4242'' 4242 ''node''
                                   = killed p (name_of_reply ''linux'' nrep)))))"
    unfolding pf by blast
  have e: "evs = ?l" using l unfolding logged_def tr by (simp only: state.simps append_Nil)
  from p have "first = Inr ss_line" unfolding e by simp
  with pidl have "pid_of_reply ''linux'' first = Number 4242 \<and> (4242 :: int) \<noteq> 0" by simp
  from c[rule_format, OF this] obtain nrep asked where
    a0: "if True then asked = []
         else (\<exists>answer. asked = [Ask (question (name_of_reply ''linux'' nrep) 4242 3000) answer])"
    and s: "consent True (question (name_of_reply ''linux'' nrep) 4242 3000) asked \<longrightarrow>
             (\<exists>reply. signal_run ''linux'' 4242 (signals evs) reply
                \<and> (\<forall>msg. reply = Inl msg \<longrightarrow>
                      failed ''Command failed: kill -9 4242'' 4242 ''node''
                        = failed msg 4242 (name_of_reply ''linux'' nrep)))"
    by blast
  from a0 have a: "asked = []" by simp
  from s yes have linux: "\<exists>nrep reply. signal_run ''linux'' 4242 (signals ?l) reply
      \<and> (\<forall>msg. reply = Inl msg \<longrightarrow>
            failed ''Command failed: kill -9 4242'' 4242 ''node''
              = failed msg 4242 (name_of_reply ''linux'' nrep))"
    unfolding a e by blast
  have runw: "killPort (host_env ''win32'') 3000 True (boot windows_host) =
      (failed ''Command failed: taskkill /PID 4242 /F'' 4242 ''node.exe'',
       \<lparr>trace = ?w, world = scripted [] []\<rparr>)"
    by (simp add: eval_defs windows_host_def netstat_line_def match_listening.simps failed_def)
  have pidw: "pid_of_reply ''win32'' (Inr netstat_line) = Number 4242"
    by (simp add: eval_defs netstat_line_def match_listening.simps)
  have pcw: "pid_command ''win32'' 3000 = ''netstat -ano | findstr :3000 | findstr LISTENING''"
    by (simp add: eval_defs)
  from killPort_escalation[OF runw] obtain evs' first' where
    l': "logged (host_env ''win32'') (boot windows_host) evs' \<lparr>trace = ?w, world = scripted [] []\<rparr>"
    and p': "prefix [Exec (pid_command ''win32'' 3000) first'] evs'"
    and c': "\<forall>p. pid_of_reply ''win32'' first' = Number p \<and> p \<noteq> 0 \<longrightarrow>
                (\<exists>nrep asked rest.
                   evs' = Exec (pid_command ''win32'' 3000) first' # Exec (name_command ''win32'' p) nrep # asked @ rest
                   \<and> (if True then asked = []
                       else (\<exists>answer. asked = [Ask (question (name_of_reply ''win32'' nrep) p 3000) answer]))
                   \<and> ((\<exists>answer. asked = [Ask (question (name_of_reply ''win32'' nrep) p 3000) answer]
                                 \<and> \<not> affirmative answer)
                        \<longrightarrow> failed ''Command failed: taskkill /PID 4242 /F'' 4242 ''node.exe'' = cancelled \<and> rest = [])
                   \<and> (consent True (question (name_of_reply ''win32'' nrep) p 3000) asked \<longrightarrow>
                        (\<exists>reply. signal_run ''win32'' p (signals evs') reply
                           \<and> prefix (signals evs') rest
                           \<and> (\<forall>msg. reply = Inl msg \<longrightarrow>
                                 failed ''Command failed: taskkill /PID 4242 /F'' 4242 ''node.exe''
                                   = failed msg p (name_of_reply ''win32'' nrep))
                           \<and> (\<forall>out. reply = Inr out \<longrightarrow>
                                 failed ''Command failed: taskkill /PID 4242 /F'' 4242 ''node.exe''
                                   = still_running p (name_of_reply ''win32'' nrep)
                                 \<or> failed ''Command failed: taskkill /PID 4242 /F'' 4242 ''node.exe''
                                   = killed p (name_of_reply ''win32'' nrep)))))"
    unfolding pf by blast
  have e': "evs' = ?w" using l' unfolding logged_def tr by (simp only: state.simps append_Nil)
  from p' have "first' = Inr netstat_line" unfolding e' pcw by simp
  with pidw have "pid_of_reply ''win32'' first' = Number 4242 \<and> (4242 :: int) \<noteq> 0" by simp
  from c'[rule_format, OF this] obtain nrep' asked' where
    a0': "if True then asked' = []
          else (\<exists>answer. asked' = [Ask (question (name_of_reply ''win32'' nrep') 4242 3000) answer])"
    and s': "consent True (question (name_of_reply ''win32'' nrep') 4242 3000) asked' \<longrightarrow>
             (\<exists>reply. signal_run ''win32'' 4242 (signals evs') reply
                \<and> (\<forall>msg. reply = Inl msg \<longrightarrow>
                      failed ''Command failed: taskkill /PID 4242 /F'' 4242 ''node.exe''
                        = failed msg 4242 (name_of_reply ''win32'' nrep')))"
    by blast
  from a0' have a': "asked' = []" by simp
  from s' yes have windows: "\<exists>nrep reply. signal_run ''win32'' 4242 (signals ?w) reply
      \<and> (\<forall>msg. reply = Inl msg \<longrightarrow>
            failed ''Command failed: taskkill /PID 4242 /F'' 4242 ''node.exe''
              = failed msg 4242 (name_of_reply ''win32'' nrep))"
    unfolding a' e' by blast
  from linux windows show ?thesis unfolding runl runw fst_conv by blast
qed

text \<open>
  C6, as amended. Whatever the operating system answers, \<open>killPort\<close> returns one of
  its five result objects: every rejection inside it is caught. \<open>findAvailablePort\<close>
  returns a port or throws; for a start port in \<open>0..65535\<close> the only error it throws
  is the \<open>Error\<close> of the exhausted search, and it throws it whenever none of its
  candidates is free.
\<close>

theorem core_outcomes:
  "(\<exists>p nm msg. fst (killPort env port force s)
       \<in> {not_found, cancelled, still_running p nm, killed p nm, failed msg p nm})
   \<and> (0 \<le> startPort \<and> startPort \<le> 65535 \<longrightarrow>
        (\<exists>found. fst (findAvailablePort env2 startPort maxAttempts s2) = Inr found)
        \<or> fst (findAvailablePort env2 startPort maxAttempts s2) = Inl (exhausted maxAttempts))
   \<and> (0 \<le> startPort \<and> startPort \<le> 65535
        \<and> (\<forall>q\<in>set (candidates startPort maxAttempts). \<forall>w. fst (os_listen env2 q w) \<noteq> None) \<longrightarrow>
        fst (findAvailablePort env2 startPort maxAttempts s2) = Inl (exhausted maxAttempts))"
proof (intro conjI impI)
  obtain r s' where k: "killPort env port force s = (r, s')" by (cases "killPort env port force s")
  then have "\<exists>p nm msg. r \<in> {not_found, cancelled, still_running p nm, killed p nm, failed msg p nm}"
    by (cases rule: killPort_run) auto
  with k show "\<exists>p nm msg. fst (killPort env port force s)
       \<in> {not_found, cancelled, still_running p nm, killed p nm, failed msg p nm}" by simp
next
  assume v: "0 \<le> startPort \<and> startPort \<le> 65535"
  obtain r s' where f: "findAvailablePort env2 startPort maxAttempts s2 = (r, s')"
    by (cases "findAvailablePort env2 startPort maxAttempts s2")
  from findAvailablePort_scanned[OF f] v
  show "(\<exists>found. fst (findAvailablePort env2 startPort maxAttempts s2) = Inr found)
        \<or> fst (findAvailablePort env2 startPort maxAttempts s2) = Inl (exhausted maxAttempts)"
    unfolding f by (cases r) auto
next
  assume a: "0 \<le> startPort \<and> startPort \<le> 65535
        \<and> (\<forall>q\<in>set (candidates startPort maxAttempts). \<forall>w. fst (os_listen env2 q w) \<noteq> None)"
  then have "\<forall>q\<in>set (candidates startPort maxAttempts).
      0 \<le> q \<and> q \<le> 65535 \<and> (\<forall>w. fst (os_listen env2 q w) \<noteq> None)"
    using candidates_valid[of startPort maxAttempts] by blast
  from probe_each_occupied[OF this, of s2]
  obtain s' where "probe_each env2 (candidates startPort maxAttempts) s2 = (Inr None, s')" by blast
  then show "fst (findAvailablePort env2 startPort maxAttempts s2) = Inl (exhausted maxAttempts)"
    by (simp add: findAvailablePort_eq_probe_each)
qed

theorem core_outcomes_witness:
  "fst (killPort (host_env ''linux'') 3000 True (boot stubborn_host)) = still_running 4242 ''node''
   \<and> fst (findAvailablePort (fixed_env ''linux'' (\<lambda>q. 8080 \<le> q)) 8080 3 \<lparr>trace = [], world = ()\<rparr>)
       = Inl (Error ''Could not find available port within 3 attempts'')"
proof -
  have run: "killPort (host_env ''linux'') 3000 True (boot stubborn_host) =
      (still_running 4242 ''node'',
       \<lparr>trace = [Exec ''ss -tulpn | grep :3000'' (Inr ss_line),
                 Exec ''ps -p 4242 -o comm='' (Inr ''node''),
                 Exec ''kill -TERM 4242'' (Inr []),
                 Delay 500,
                 Exec ''ss -tulpn | grep :3000'' (Inr ss_line)],
        world = scripted [] []\<rparr>)"
    by (simp add: eval_defs stubborn_host_def)
  have occ: "\<forall>q\<in>set (candidates 8080 3). \<forall>w. fst (os_listen (fixed_env ''linux'' (\<lambda>q. 8080 \<le> q)) q w) \<noteq> None"
    by (auto simp: fixed_env_def candidates_def)
  have e: "exhausted 3 = Error ''Could not find available port within 3 attempts''"
    by code_simp
  from core_outcomes[where env = "host_env ''linux''" and port = 3000 and force = True
      and s = "boot stubborn_host" and startPort = 8080 and maxAttempts = 3
      and ?env2.0 = "fixed_env ''linux'' (\<lambda>q. 8080 \<le> q)" and ?s2.0 = "\<lparr>trace = [], world = ()\<rparr>"] occ
  show ?thesis by (simp add: run e)
qed

text \<open>
  C6 as stated fails: with port 3000 taken, a search of one attempt does not return a
  result value, it throws.
\<close>

theorem core_outcomes_counterexample:
  "fst (findAvailablePort (host_env ''linux'') 3000 1 (boot busy_host))
     = Inl (Error ''Could not find available port within 1 attempts'')"
  by code_simp

text \<open>
  C7. For a port in \<open>0..65535\<close> the probe returns a boolean, never an error: \<open>true\<close>
  exactly when the bind succeeds, \<open>false\<close> on \<open>EADDRINUSE\<close> and on every other error
  code.
\<close>

theorem isPortAvailable_boolean:
  assumes "0 \<le> port" "port \<le> 65535"
  shows "\<exists>b s'. isPortAvailable env port s = (Inr b, s')
           \<and> (b \<longleftrightarrow> fst (os_listen env port (world s)) = None)
           \<and> (\<forall>code. fst (os_listen env port (world s)) = Some code \<longrightarrow> \<not> b)"
  unfolding isPortAvailable_valid_eq[OF assms]
  by (cases "os_listen env port (world s)"; cases "fst (os_listen env port (world s))") auto

theorem isPortAvailable_boolean_witness:
  "fst (os_listen (host_env ''linux'') 80 (world (boot unprivileged_host))) = Some ''EACCES''
   \<and> fst (isPortAvailable (host_env ''linux'') 80 (boot unprivileged_host)) = Inr False"
proof -
  have l: "fst (os_listen (host_env ''linux'') 80 (world (boot unprivileged_host))) = Some ''EACCES''"
    by code_simp
  from isPortAvailable_boolean[of 80 "host_env ''linux''" "boot unprivileged_host"] l
  show ?thesis by auto
qed

text \<open>
  C8, as amended. When the bind succeeds and closing the socket gives the port back,
  the probe closes its socket before it answers \<open>true\<close>, leaves the operating system
  as it found it, and an immediate second probe answers \<open>true\<close> again.
\<close>

theorem isPortAvailable_repeatable:
  assumes "0 \<le> port" "port \<le> 65535"
    and "os_listen env port (world s) = (None, w1)"
    and "os_close env port w1 = world s"
  shows "\<exists>s1 s2. isPortAvailable env port s = (Inr True, s1)
           \<and> trace s1 = trace s @ [Listen port None, Close port]
           \<and> world s1 = world s
           \<and> isPortAvailable env port s1 = (Inr True, s2)
           \<and> world s2 = world s"
  unfolding isPortAvailable_valid_eq[OF assms(1,2)] using assms(3,4) by simp

theorem isPortAvailable_repeatable_witness:
  "\<exists>s1 s2. isPortAvailable (host_env ''linux'') 3005 (boot busy_host) = (Inr True, s1)
           \<and> trace s1 = [Listen 3005 None, Close 3005]
           \<and> world s1 = busy_host
           \<and> isPortAvailable (host_env ''linux'') 3005 s1 = (Inr True, s2)
           \<and> world s2 = busy_host"
proof -
  have l: "os_listen (host_env ''linux'') 3005 (world (boot busy_host))
             = (None, busy_host\<lparr>bound := 3005 # bound busy_host\<rparr>)"
    by (simp add: host_env_def host_listen_def boot_def busy_host_def)
  have c: "os_close (host_env ''linux'') 3005 (busy_host\<lparr>bound := 3005 # bound busy_host\<rparr>)
             = world (boot busy_host)"
    by (simp add: host_env_def host_close_def boot_def busy_host_def)
  from isPortAvailable_repeatable[OF _ _ l c] show ?thesis by (simp add: boot_def)
qed

text \<open>
  C8 as stated fails: nobody is bound to port 80 of this host, and the probe still
  answers \<open>false\<close>, because the bind is refused.
\<close>

theorem isPortAvailable_repeatable_counterexample:
  "80 \<notin> set (bound unprivileged_host)
   \<and> fst (isPortAvailable (host_env ''linux'') 80 (boot unprivileged_host)) = Inr False"
  by code_simp

text \<open>
  C9. For a framework of the table, \<open>findPortForFramework\<close> probes the ports listed
  for it, in their order, and returns the first free one; when all of them are busy
  it returns what \<open>findAvailablePort(3000)\<close> returns after them.
\<close>

theorem findPortForFramework_preferred:
  assumes "map_of getFrameworkSuggestions framework = Some ports"
    and "findPortForFramework env framework s = (r, s')"
  shows "(\<exists>port evs. r = Inr port \<and> trace s' = trace s @ evs \<and> scanned ports evs (Some port))
       \<or> (\<exists>evs s1. trace s1 = trace s @ evs \<and> scanned ports evs None
             \<and> findAvailablePort env 3000 100 s1 = (r, s'))"
proof -
  obtain r1 s1 where p1: "probe_each env ports s = (r1, s1)" by (cases "probe_each env ports s")
  from probe_each_scanned[OF p1 suggestions_valid[OF assms(1)]]
  obtain x evs where x: "r1 = Inr x" "trace s1 = trace s @ evs" "scanned ports evs x" by blast
  from assms have run: "probe_preferred env ports s = (r, s')"
    by (simp add: findPortForFramework_def get_property_def)
  show ?thesis
  proof (cases x)
    case None
    with run p1 x have "findAvailablePort env 3000 100 s1 = (r, s')"
      by (simp add: probe_preferred_def)
    with x None show ?thesis by blast
  next
    case (Some port)
    with run p1 x have "r = Inr port" "s' = s1" by (simp_all add: probe_preferred_def)
    with x Some show ?thesis by blast
  qed
qed

theorem findPortForFramework_preferred_witness:
  "findPortForFramework (fixed_env ''linux'' (\<lambda>q. q = 4200)) ''Angular'' \<lparr>trace = [], world = ()\<rparr>
     = (Inr 4201, \<lparr>trace = [Listen 4200 (Some ''EADDRINUSE''), Listen 4201 None, Close 4201], world = ()\<rparr>)
   \<and> ((\<exists>port evs. Inr 4201 = (Inr port :: error + int)
          \<and> [Listen 4200 (Some ''EADDRINUSE''), Listen 4201 None, Close 4201] = evs
          \<and> scanned [4200, 4201] evs (Some port))
      \<or> (\<exists>evs s1. trace s1 = evs \<and> scanned [4200, 4201] evs None
          \<and> findAvailablePort (fixed_env ''linux'' (\<lambda>q. q = 4200)) 3000 100 s1
              = (Inr 4201, \<lparr>trace = [Listen 4200 (Some ''EADDRINUSE''), Listen 4201 None, Close 4201],
                            world = ()\<rparr>)))"
proof -
  have m: "map_of getFrameworkSuggestions ''Angular'' = Some [4200, 4201]" by code_simp
  have run: "findPortForFramework (fixed_env ''linux'' (\<lambda>q. q = 4200)) ''Angular'' \<lparr>trace = [], world = ()\<rparr>
      = (Inr 4201, \<lparr>trace = [Listen 4200 (Some ''EADDRINUSE''), Listen 4201 None, Close 4201], world = ()\<rparr>)"
    by code_simp
  from findPortForFramework_preferred[OF m run] run show ?thesis
    by simp
qed

text \<open>
  C10. The name \<open>constructor\<close> is not a framework of the table, yet the lookup finds
  the function every object inherits under this name; the default list is not used
  and \<open>for ... of\<close> throws, without a single probe.
\<close>

theorem findPortForFramework_inherited_name:
  "map_of getFrameworkSuggestions ''constructor'' = None
   \<and> findPortForFramework env ''constructor'' s = (Inl TypeError, s)"
  by (simp add: findPortForFramework_def get_property_def getFrameworkSuggestions_def
      object_prototype_members_def)

end
